theory Spec2Isabelle
  imports Main "HOL-Library.AList" "HOL-Library.Multiset"
begin

section \<open>Data model of \<^verbatim>\<open>utils/client.go\<close>\<close>

text \<open>
  The discovery types of \<^verbatim>\<open>metav1\<close> and \<^verbatim>\<open>schema\<close> are records with the
  fields the code reads. A Go pointer that may be nil is an \<open>option\<close>; a Go slice is a
  list (the nil slice is the empty list). The three document types of the provider
  (\<^verbatim>\<open>version.Info\<close>, \<^verbatim>\<open>swagger.ApiDeclaration\<close>, \<^verbatim>\<open>openapi_v2.Document\<close>) are
  opaque to the code, which only stores and returns them; each is a payload string.
\<close>

record APIResource =
  Name :: string
  Kind :: string
  Namespaced :: bool

record APIResourceList =
  GroupVersion :: string
  APIResources :: "APIResource list"

record GroupVersionForDiscovery =
  GroupVersion :: string
  Version :: string

record APIGroup =
  Name :: string
  Versions :: "GroupVersionForDiscovery list"
  PreferredVersion :: GroupVersionForDiscovery

record APIGroupList =
  Groups :: "APIGroup list"

text \<open>\<^verbatim>\<open>schema.GroupVersion\<close>, \<^verbatim>\<open>schema.GroupResource\<close> and
  \<^verbatim>\<open>schema.GroupVersionKind\<close> are comparable structs of strings; they are used as
  map keys, so they are tuples here (in the order of the Go fields).\<close>

type_synonym GroupVersion = "string \<times> string"
type_synonym GroupResource = "string \<times> string"
type_synonym GroupVersionKind = "string \<times> string \<times> string"

datatype Info = Info string
datatype ApiDeclaration = ApiDeclaration string
datatype Document = Document string

text \<open>
  A Go \<^verbatim>\<open>error\<close> is either an error of the remote provider (its message), or one of
  the two errors that \<^verbatim>\<open>serverResourceForGroupVersionKind\<close> builds with
  \<^verbatim>\<open>fmt.Errorf\<close>; those keep the arguments of their format string.
  A panic of the Go runtime is not an error value: it is the \<open>Inl\<close> branch of a
  method's result. A method that can panic returns the client as the panic leaves it
  (the deferred unlock runs, and a caller that recovers goes on with that state).
\<close>

datatype error =
    ProviderError string
  | UnableToFetch GroupVersion error
  | UnableToHandle GroupVersionKind

datatype panic = NilMapAssignment | NilPointerDereference

subsection \<open>The remote provider\<close>

text \<open>
  The field \<^verbatim>\<open>cl\<close> is a \<^verbatim>\<open>discovery.DiscoveryInterface\<close>: external, stateful and
  fallible. Each of its methods returns a pair (value, error) in which either component
  may be nil. Its reply may depend on everything it was asked before, so a provider
  is given by its replies as functions of the calls issued so far.
\<close>

datatype call =
    CallServerGroups
  | CallServerResourcesForGroupVersion string
  | CallServerVersion
  | CallSwaggerSchema GroupVersion
  | CallOpenAPISchema

record discovery =
  cl_ServerGroups :: "call list \<Rightarrow> APIGroupList option \<times> error option"
  cl_ServerResourcesForGroupVersion ::
    "call list \<Rightarrow> string \<Rightarrow> APIResourceList option \<times> error option"
  cl_ServerVersion :: "call list \<Rightarrow> Info option \<times> error option"
  cl_SwaggerSchema :: "call list \<Rightarrow> GroupVersion \<Rightarrow> ApiDeclaration option \<times> error option"
  cl_OpenAPISchema :: "call list \<Rightarrow> Document option \<times> error option"

subsection \<open>The cache\<close>

text \<open>
  A Go map from strings to pointers may itself be nil, may lack a key, and may hold a
  nil pointer under a key: \<open>None\<close> is the nil map, \<open>Some m\<close> with \<open>m k = None\<close> lacks
  the key, and \<open>m k = Some None\<close> holds nil. Reading never fails and yields nil in
  all three cases; assigning into the nil map panics.
\<close>

type_synonym 'v gomap = "(string \<rightharpoonup> 'v option) option"

definition index :: "'v gomap \<Rightarrow> string \<Rightarrow> 'v option" where
  "index m k = (case m of None \<Rightarrow> None | Some f \<Rightarrow> (case f k of None \<Rightarrow> None | Some v \<Rightarrow> v))"

definition make_map :: "'v gomap" where
  "make_map = Some Map.empty"

text \<open>
  The struct \<^verbatim>\<open>memcachedDiscoveryClient\<close>. The field \<open>issued\<close> is not in the source:
  it logs the calls made to \<open>cl\<close>, oldest first. The lock is left out: every method
  holds it from entry to return, so the methods are the atomic steps and a run is a
  sequence of them.
\<close>

record memcachedDiscoveryClient =
  cl :: discovery
  issued :: "call list"
  servergroups :: "APIGroupList option"
  serverresources :: "APIResourceList gomap"
  schemas :: "ApiDeclaration gomap"
  schema :: "Document option"
  serverVersion :: "Info option"

definition Invalidate :: "memcachedDiscoveryClient \<Rightarrow> memcachedDiscoveryClient" where
  "Invalidate c =
     c\<lparr>servergroups := None,
       serverresources := make_map,
       schemas := make_map,
       schema := None,
       serverVersion := None\<rparr>"

text \<open>\<^verbatim>\<open>c := &memcachedDiscoveryClient{cl: cl}\<close> has every other field at its zero
  value: nil pointers and nil maps.\<close>

definition zero_client :: "discovery \<Rightarrow> memcachedDiscoveryClient" where
  "zero_client d =
     \<lparr>cl = d, issued = [], servergroups = None, serverresources = None,
      schemas = None, schema = None, serverVersion = None\<rparr>"

definition NewMemcachedDiscoveryClient :: "discovery \<Rightarrow> memcachedDiscoveryClient" where
  "NewMemcachedDiscoveryClient d = Invalidate (zero_client d)"

definition Fresh :: "memcachedDiscoveryClient \<Rightarrow> bool" where
  "Fresh c = True"

definition ServerGroups ::
  "memcachedDiscoveryClient \<Rightarrow> (APIGroupList option \<times> error option) \<times> memcachedDiscoveryClient"
where
  "ServerGroups c =
     (case servergroups c of
        Some g \<Rightarrow> ((Some g, None), c)
      | None \<Rightarrow>
          (let (r, err) = cl_ServerGroups (cl c) (issued c);
               c' = c\<lparr>issued := issued c @ [CallServerGroups], servergroups := r\<rparr>
           in ((servergroups c', err), c')))"

definition ServerResourcesForGroupVersion ::
  "memcachedDiscoveryClient \<Rightarrow> string \<Rightarrow>
   (panic + (APIResourceList option \<times> error option)) \<times> memcachedDiscoveryClient"
where
  "ServerResourcesForGroupVersion c groupVersion =
     (case index (serverresources c) groupVersion of
        Some v \<Rightarrow> (Inr (Some v, None), c)
      | None \<Rightarrow>
          (let (r, err) = cl_ServerResourcesForGroupVersion (cl c) (issued c) groupVersion;
               c1 = c\<lparr>issued := issued c @ [CallServerResourcesForGroupVersion groupVersion]\<rparr>
           in case serverresources c1 of
                None \<Rightarrow> (Inl NilMapAssignment, c1)
              | Some m \<Rightarrow>
                  (let c2 = c1\<lparr>serverresources := Some (m(groupVersion \<mapsto> r))\<rparr>
                   in (Inr (index (serverresources c2) groupVersion, err), c2))))"

definition ServerVersion ::
  "memcachedDiscoveryClient \<Rightarrow> (Info option \<times> error option) \<times> memcachedDiscoveryClient"
where
  "ServerVersion c =
     (if serverVersion c = None then
        (let (info, err) = cl_ServerVersion (cl c) (issued c);
             c1 = c\<lparr>issued := issued c @ [CallServerVersion]\<rparr>
         in if err \<noteq> None then ((None, err), c1)
            else (let c2 = c1\<lparr>serverVersion := info\<rparr> in ((serverVersion c2, None), c2)))
      else ((serverVersion c, None), c))"

text \<open>\<^verbatim>\<open>SwaggerSchema\<close> keys its cache by \<^verbatim>\<open>version.String()\<close>, a method of the
  \<^verbatim>\<open>schema\<close> package; it is the parameter \<open>String\<close>.\<close>

definition SwaggerSchema ::
  "(GroupVersion \<Rightarrow> string) \<Rightarrow> memcachedDiscoveryClient \<Rightarrow> GroupVersion \<Rightarrow>
   (panic + (ApiDeclaration option \<times> error option)) \<times> memcachedDiscoveryClient"
where
  "SwaggerSchema String c version =
     (let key = String version in
      if index (schemas c) key \<noteq> None then (Inr (index (schemas c) key, None), c)
      else
        (let (sch, err) = cl_SwaggerSchema (cl c) (issued c) version;
             c1 = c\<lparr>issued := issued c @ [CallSwaggerSchema version]\<rparr>
         in if err \<noteq> None then (Inr (None, err), c1)
            else (case schemas c1 of
                    None \<Rightarrow> (Inl NilMapAssignment, c1)
                  | Some m \<Rightarrow> (Inr (sch, None), c1\<lparr>schemas := Some (m(key \<mapsto> sch))\<rparr>))))"

definition OpenAPISchema ::
  "memcachedDiscoveryClient \<Rightarrow> (Document option \<times> error option) \<times> memcachedDiscoveryClient"
where
  "OpenAPISchema c =
     (if schema c \<noteq> None then ((schema c, None), c)
      else
        (let (sch, err) = cl_OpenAPISchema (cl c) (issued c);
             c1 = c\<lparr>issued := issued c @ [CallOpenAPISchema]\<rparr>
         in if err \<noteq> None then ((None, err), c1)
            else ((sch, None), c1\<lparr>schema := sch\<rparr>)))"

subsection \<open>Listing every resource\<close>

text \<open>The control flow of a loop body that may panic, return an error early, or go
  on with the loop's variables.\<close>

datatype 'a flow = Panics panic | Returns error | Continues 'a

fun resourcesOfVersions ::
  "GroupVersionForDiscovery list \<Rightarrow> memcachedDiscoveryClient \<Rightarrow> APIResourceList option list \<Rightarrow>
   APIResourceList option list flow \<times> memcachedDiscoveryClient"
where
  "resourcesOfVersions [] c result = (Continues result, c)"
| "resourcesOfVersions (version # rest) c result =
     (case ServerResourcesForGroupVersion c (GroupVersionForDiscovery.GroupVersion version) of
        (Inl p, c1) \<Rightarrow> (Panics p, c1)
      | (Inr (resources, Some e), c1) \<Rightarrow> (Returns e, c1)
      | (Inr (resources, None), c1) \<Rightarrow> resourcesOfVersions rest c1 (result @ [resources]))"

fun resourcesOfGroups ::
  "APIGroup list \<Rightarrow> memcachedDiscoveryClient \<Rightarrow> APIResourceList option list \<Rightarrow>
   APIResourceList option list flow \<times> memcachedDiscoveryClient"
where
  "resourcesOfGroups [] c result = (Continues result, c)"
| "resourcesOfGroups (apiGroup # rest) c result =
     (case resourcesOfVersions (Versions apiGroup) c result of
        (Continues result1, c1) \<Rightarrow> resourcesOfGroups rest c1 result1
      | (stop, c1) \<Rightarrow> (stop, c1))"

definition ServerResources ::
  "memcachedDiscoveryClient \<Rightarrow>
   (panic + (APIResourceList option list \<times> error option)) \<times> memcachedDiscoveryClient"
where
  "ServerResources c =
     (case ServerGroups c of
        ((apiGroups, Some e), c1) \<Rightarrow> (Inr ([], Some e), c1)
      | ((None, None), c1) \<Rightarrow> (Inl NilPointerDereference, c1)
      | ((Some gl, None), c1) \<Rightarrow>
          (case resourcesOfGroups (Groups gl) c1 [] of
             (Panics p, c2) \<Rightarrow> (Inl p, c2)
           | (Returns e, c2) \<Rightarrow> (Inr ([], Some e), c2)
           | (Continues result, c2) \<Rightarrow> (Inr (result, None), c2)))"

subsection \<open>The preferred resources\<close>

text \<open>
  The local variables of \<^verbatim>\<open>ServerPreferredResources\<close>. The slice \<open>result\<close> holds
  pointers to the lists that \<open>gvApiResourceLists\<close> also points to, and the last loop
  appends through those pointers: the lists live in \<open>result\<close>, and a pointer is a
  position in it. \<open>grApiResources\<close> is the map the last loop ranges over; it is an
  association list with one pair per key, so that the keys can be enumerated.
\<close>

record selection =
  result :: "APIResourceList list"
  grVersions :: "GroupResource \<rightharpoonup> string"
  grApiResources :: "(GroupResource \<times> APIResource) list"
  gvApiResourceLists :: "GroupVersion \<rightharpoonup> nat"

definition no_selection :: selection where
  "no_selection = \<lparr>result = [], grVersions = Map.empty, grApiResources = [],
                    gvApiResourceLists = Map.empty\<rparr>"

text \<open>Lines 148 to 160: the loop over the resources of one group-version.\<close>

fun selectResources ::
  "APIGroup \<Rightarrow> GroupVersionForDiscovery \<Rightarrow> APIResource list \<Rightarrow> selection \<Rightarrow> selection"
where
  "selectResources apiGroup version [] s = s"
| "selectResources apiGroup version (apiResource # rest) s =
     selectResources apiGroup version rest
       (if CHR ''/'' \<in> set (APIResource.Name apiResource) then s
        else
          (let gv = (APIGroup.Name apiGroup, APIResource.Name apiResource) in
           if map_of (grApiResources s) gv \<noteq> None \<and>
              Version version \<noteq> Version (PreferredVersion apiGroup)
           then s
           else s\<lparr>grVersions := (grVersions s)(gv \<mapsto> Version version),
                  grApiResources := AList.update gv apiResource (grApiResources s)\<rparr>))"

text \<open>Lines 141 to 146: the empty list of a group-version, appended to \<open>result\<close> and
  pointed to from \<open>gvApiResourceLists\<close>.\<close>

definition addEmptyList :: "APIGroup \<Rightarrow> GroupVersionForDiscovery \<Rightarrow> selection \<Rightarrow> selection" where
  "addEmptyList apiGroup version s =
     s\<lparr>gvApiResourceLists :=
         (gvApiResourceLists s)((APIGroup.Name apiGroup, Version version) \<mapsto> length (result s)),
       result := result s @
         [\<lparr>APIResourceList.GroupVersion = GroupVersionForDiscovery.GroupVersion version,
           APIResources = []\<rparr>]\<rparr>"

fun selectVersions ::
  "APIGroup \<Rightarrow> GroupVersionForDiscovery list \<Rightarrow> memcachedDiscoveryClient \<Rightarrow> selection \<Rightarrow>
   selection flow \<times> memcachedDiscoveryClient"
where
  "selectVersions apiGroup [] c s = (Continues s, c)"
| "selectVersions apiGroup (version # rest) c s =
     (case ServerResourcesForGroupVersion c (GroupVersionForDiscovery.GroupVersion version) of
        (Inl p, c1) \<Rightarrow> (Panics p, c1)
      | (Inr (apiResourceList, Some e), c1) \<Rightarrow> (Returns e, c1)
      | (Inr (None, None), c1) \<Rightarrow> (Panics NilPointerDereference, c1)
      | (Inr (Some l, None), c1) \<Rightarrow>
          selectVersions apiGroup rest c1
            (selectResources apiGroup version (APIResources l) (addEmptyList apiGroup version s)))"

fun selectGroups ::
  "APIGroup list \<Rightarrow> memcachedDiscoveryClient \<Rightarrow> selection \<Rightarrow>
   selection flow \<times> memcachedDiscoveryClient"
where
  "selectGroups [] c s = (Continues s, c)"
| "selectGroups (apiGroup # rest) c s =
     (case selectVersions apiGroup (Versions apiGroup) c s of
        (Continues s1, c1) \<Rightarrow> selectGroups rest c1 s1
      | (stop, c1) \<Rightarrow> (stop, c1))"

text \<open>
  Lines 165 to 170: the loop over \<open>grApiResources\<close>, in the order the runtime ranges
  over the map (the first argument). A missing key of \<open>grVersions\<close> reads as the empty
  string, and a missing key of \<open>gvApiResourceLists\<close> as the nil pointer, whose
  dereference panics.
\<close>

fun groupSelected ::
  "(GroupResource \<times> APIResource) list \<Rightarrow> selection \<Rightarrow> panic + APIResourceList list"
where
  "groupSelected [] s = Inr (result s)"
| "groupSelected ((groupResource, apiResource) # rest) s =
     (let version = (case grVersions s groupResource of None \<Rightarrow> [] | Some v \<Rightarrow> v);
          groupVersion = (fst groupResource, version)
      in case gvApiResourceLists s groupVersion of
           None \<Rightarrow> Inl NilPointerDereference
         | Some p \<Rightarrow>
             groupSelected rest
               (s\<lparr>result := (result s)
                   [p := (result s ! p)\<lparr>APIResources :=
                                           APIResources (result s ! p) @ [apiResource]\<rparr>]\<rparr>))"

text \<open>
  Go ranges over a map in an order the runtime chooses anew each time. The parameter
  \<open>ranged\<close> is that choice: it reorders the pairs of \<open>grApiResources\<close>.
\<close>

definition ServerPreferredResources ::
  "((GroupResource \<times> APIResource) list \<Rightarrow> (GroupResource \<times> APIResource) list) \<Rightarrow>
   memcachedDiscoveryClient \<Rightarrow>
   (panic + (APIResourceList list \<times> error option)) \<times> memcachedDiscoveryClient"
where
  "ServerPreferredResources ranged c =
     (case ServerGroups c of
        ((serverGroupList, Some e), c1) \<Rightarrow> (Inr ([], Some e), c1)
      | ((None, None), c1) \<Rightarrow> (Inl NilPointerDereference, c1)
      | ((Some gl, None), c1) \<Rightarrow>
          (case selectGroups (Groups gl) c1 no_selection of
             (Panics p, c2) \<Rightarrow> (Inl p, c2)
           | (Returns e, c2) \<Rightarrow> (Inr ([], Some e), c2)
           | (Continues s, c2) \<Rightarrow>
               (case groupSelected (ranged (grApiResources s)) s of
                  Inl p \<Rightarrow> (Inl p, c2)
                | Inr res \<Rightarrow> (Inr (res, None), c2))))"

text \<open>
  Modelled from the spec: \<^verbatim>\<open>discovery.FilteredBy\<close> of client-go, which is not among
  the sources. The spec has it keep the lists (the same group-version buckets, in
  order) and, inside each, the resources that the predicate accepts.
\<close>

definition FilteredBy ::
  "(string \<Rightarrow> APIResource \<Rightarrow> bool) \<Rightarrow> APIResourceList list \<Rightarrow> APIResourceList list"
where
  "FilteredBy pred rls =
     map (\<lambda>rl. rl\<lparr>APIResources :=
                    filter (pred (APIResourceList.GroupVersion rl)) (APIResources rl)\<rparr>) rls"

definition ServerPreferredNamespacedResources ::
  "((GroupResource \<times> APIResource) list \<Rightarrow> (GroupResource \<times> APIResource) list) \<Rightarrow>
   memcachedDiscoveryClient \<Rightarrow>
   (panic + (APIResourceList list \<times> error option)) \<times> memcachedDiscoveryClient"
where
  "ServerPreferredNamespacedResources ranged c =
     (case ServerPreferredResources ranged c of
        (Inl p, c1) \<Rightarrow> (Inl p, c1)
      | (Inr (all, err), c1) \<Rightarrow> (Inr (FilteredBy (\<lambda>gv r. Namespaced r) all, err), c1))"

subsection \<open>The resource of an object's kind\<close>

text \<open>Lines 270 to 275: the first resource of the list with the kind asked for.\<close>

fun resourceOfKind :: "string \<Rightarrow> APIResource list \<Rightarrow> APIResource option" where
  "resourceOfKind kind [] = None"
| "resourceOfKind kind (r # rest) = (if Kind r = kind then Some r else resourceOfKind kind rest)"

text \<open>
  \<^verbatim>\<open>disco\<close> is any \<^verbatim>\<open>discovery.ServerResourcesInterface\<close>: its method
  \<^verbatim>\<open>ServerResourcesForGroupVersion\<close> is the parameter \<open>disco\<close>, over a state \<open>'d\<close> of
  its own (the cache above is one). \<open>String\<close> is \<^verbatim>\<open>schema.GroupVersion.String\<close>.
\<close>

definition serverResourceForGroupVersionKind ::
  "(GroupVersion \<Rightarrow> string) \<Rightarrow>
   ('d \<Rightarrow> string \<Rightarrow> (panic + (APIResourceList option \<times> error option)) \<times> 'd) \<Rightarrow>
   'd \<Rightarrow> GroupVersionKind \<Rightarrow> (panic + (APIResource option \<times> error option)) \<times> 'd"
where
  "serverResourceForGroupVersionKind String disco d gvk =
     (let groupVersion = (fst gvk, fst (snd gvk)); kind = snd (snd gvk) in
      case disco d (String groupVersion) of
        (Inl p, d1) \<Rightarrow> (Inl p, d1)
      | (Inr (resources, Some err), d1) \<Rightarrow>
          (Inr (None, Some (UnableToFetch groupVersion err)), d1)
      | (Inr (None, None), d1) \<Rightarrow> (Inl NilPointerDereference, d1)
      | (Inr (Some rl, None), d1) \<Rightarrow>
          (case resourceOfKind kind (APIResources rl) of
             Some r \<Rightarrow> (Inr (Some r, None), d1)
           | None \<Rightarrow> (Inr (None, Some (UnableToHandle gvk)), d1)))"

subsection \<open>Runs of a client\<close>

text \<open>
  A caller applies the methods one after the other to the client it got from
  \<^verbatim>\<open>NewMemcachedDiscoveryClient\<close>. An operation is one such call with its arguments;
  a run performs a list of them and collects the panics they raise.
\<close>

datatype operation =
    DoInvalidate
  | DoServerGroups
  | DoServerResourcesForGroupVersion string
  | DoServerResources
  | DoServerPreferredResources
      "(GroupResource \<times> APIResource) list \<Rightarrow> (GroupResource \<times> APIResource) list"
  | DoServerPreferredNamespacedResources
      "(GroupResource \<times> APIResource) list \<Rightarrow> (GroupResource \<times> APIResource) list"
  | DoServerVersion
  | DoSwaggerSchema GroupVersion
  | DoOpenAPISchema
  | DoServerResourceForGroupVersionKind GroupVersionKind

definition panicOf :: "panic + 'a \<Rightarrow> panic option" where
  "panicOf r = (case r of Inl p \<Rightarrow> Some p | Inr v \<Rightarrow> None)"

fun perform ::
  "(GroupVersion \<Rightarrow> string) \<Rightarrow> operation \<Rightarrow> memcachedDiscoveryClient \<Rightarrow>
   panic option \<times> memcachedDiscoveryClient"
where
  "perform String DoInvalidate c = (None, Invalidate c)"
| "perform String DoServerGroups c = (None, snd (ServerGroups c))"
| "perform String (DoServerResourcesForGroupVersion gv) c =
     (panicOf (fst (ServerResourcesForGroupVersion c gv)),
      snd (ServerResourcesForGroupVersion c gv))"
| "perform String DoServerResources c =
     (panicOf (fst (ServerResources c)), snd (ServerResources c))"
| "perform String (DoServerPreferredResources ranged) c =
     (panicOf (fst (ServerPreferredResources ranged c)), snd (ServerPreferredResources ranged c))"
| "perform String (DoServerPreferredNamespacedResources ranged) c =
     (panicOf (fst (ServerPreferredNamespacedResources ranged c)),
      snd (ServerPreferredNamespacedResources ranged c))"
| "perform String DoServerVersion c = (None, snd (ServerVersion c))"
| "perform String (DoSwaggerSchema v) c =
     (panicOf (fst (SwaggerSchema String c v)), snd (SwaggerSchema String c v))"
| "perform String DoOpenAPISchema c = (None, snd (OpenAPISchema c))"
| "perform String (DoServerResourceForGroupVersionKind gvk) c =
     (panicOf (fst (serverResourceForGroupVersionKind String ServerResourcesForGroupVersion c gvk)),
      snd (serverResourceForGroupVersionKind String ServerResourcesForGroupVersion c gvk))"

fun run ::
  "(GroupVersion \<Rightarrow> string) \<Rightarrow> operation list \<Rightarrow> memcachedDiscoveryClient \<Rightarrow>
   panic list \<times> memcachedDiscoveryClient"
where
  "run String [] c = ([], c)"
| "run String (x # xs) c =
     (let (p, c1) = perform String x c; (ps, c2) = run String xs c1
      in ((case p of None \<Rightarrow> ps | Some q \<Rightarrow> q # ps), c2))"

subsection \<open>Two providers\<close>

text \<open>A provider that is down: every call fails, with no value.\<close>

definition down :: discovery where
  "down =
     \<lparr>cl_ServerGroups = (\<lambda>h. (None, Some (ProviderError ''down''))),
      cl_ServerResourcesForGroupVersion = (\<lambda>h gv. (None, Some (ProviderError ''down''))),
      cl_ServerVersion = (\<lambda>h. (None, Some (ProviderError ''down''))),
      cl_SwaggerSchema = (\<lambda>h v. (None, Some (ProviderError ''down''))),
      cl_OpenAPISchema = (\<lambda>h. (None, Some (ProviderError ''down'')))\<rparr>"

text \<open>
  A small cluster: the group \<open>apps\<close> with the versions \<open>v1beta1\<close> and \<open>v1\<close>, of which
  \<open>v1\<close> is preferred, and the core group (the empty name) with \<open>v1\<close>. The resource
  \<open>deployments\<close> is in both versions of \<open>apps\<close>, with a descriptor of its own in each.
\<close>

definition resource :: "string \<Rightarrow> string \<Rightarrow> bool \<Rightarrow> APIResource" where
  "resource n k ns = \<lparr>APIResource.Name = n, Kind = k, Namespaced = ns\<rparr>"

definition discoveryVersion :: "string \<Rightarrow> string \<Rightarrow> GroupVersionForDiscovery" where
  "discoveryVersion gv v = \<lparr>GroupVersionForDiscovery.GroupVersion = gv, Version = v\<rparr>"

definition appsGroup :: APIGroup where
  "appsGroup =
     \<lparr>APIGroup.Name = ''apps'',
      Versions = [discoveryVersion ''apps/v1beta1'' ''v1beta1'', discoveryVersion ''apps/v1'' ''v1''],
      PreferredVersion = discoveryVersion ''apps/v1'' ''v1''\<rparr>"

definition coreGroup :: APIGroup where
  "coreGroup =
     \<lparr>APIGroup.Name = [],
      Versions = [discoveryVersion ''v1'' ''v1''],
      PreferredVersion = discoveryVersion ''v1'' ''v1''\<rparr>"

definition clusterResources :: "string \<Rightarrow> APIResourceList option \<times> error option" where
  "clusterResources gv =
     (if gv = ''apps/v1beta1'' then
        (Some \<lparr>APIResourceList.GroupVersion = gv,
               APIResources = [resource ''deployments'' ''DeploymentBeta'' True,
                               resource ''deployments/scale'' ''Scale'' True,
                               resource ''statefulsets'' ''StatefulSet'' True]\<rparr>, None)
      else if gv = ''apps/v1'' then
        (Some \<lparr>APIResourceList.GroupVersion = gv,
               APIResources = [resource ''deployments'' ''Deployment'' True]\<rparr>, None)
      else if gv = ''v1'' then
        (Some \<lparr>APIResourceList.GroupVersion = gv,
               APIResources = [resource ''pods'' ''Pod'' True,
                               resource ''pods/status'' ''Pod'' True,
                               resource ''nodes'' ''Node'' False]\<rparr>, None)
      else (None, Some (ProviderError ''not found'')))"

definition cluster :: discovery where
  "cluster =
     \<lparr>cl_ServerGroups = (\<lambda>h. (Some \<lparr>Groups = [appsGroup, coreGroup]\<rparr>, None)),
      cl_ServerResourcesForGroupVersion = (\<lambda>h. clusterResources),
      cl_ServerVersion = (\<lambda>h. (Some (Info ''v1.9.0''), None)),
      cl_SwaggerSchema = (\<lambda>h v. (Some (ApiDeclaration (snd v)), None)),
      cl_OpenAPISchema = (\<lambda>h. (Some (Document ''swagger''), None))\<rparr>"

text \<open>A rendering of a group-version for the examples: \<open>group/version\<close>, and the version
  alone for the core group.\<close>

definition groupVersionString :: "GroupVersion \<Rightarrow> string" where
  "groupVersionString gv = (if fst gv = [] then snd gv else fst gv @ ''/'' @ snd gv)"

subsection \<open>Reading the selection\<close>

text \<open>
  The pointer that the last loop dereferences for a key (lines 166 to 168): the list
  that \<open>gvApiResourceLists\<close> holds for the key's group and its selected version.
\<close>

definition listOf :: "selection \<Rightarrow> GroupResource \<Rightarrow> nat option" where
  "listOf s groupResource =
     gvApiResourceLists s
       (fst groupResource, case grVersions s groupResource of None \<Rightarrow> [] | Some v \<Rightarrow> v)"

text \<open>
  What holds of the selection all through the first loop: a key has no slash in its
  resource name, its descriptor bears that name, its list exists in \<open>result\<close>, the
  lists of \<open>result\<close> are still empty, and the two maps from keys have the same keys.
\<close>

definition selecting :: "selection \<Rightarrow> bool" where
  "selecting s =
     ((\<forall>(k, r)\<in>set (grApiResources s).
         CHR ''/'' \<notin> set (snd k) \<and> APIResource.Name r = snd k \<and>
         (\<exists>p. listOf s k = Some p \<and> p < length (result s))) \<and>
      (\<forall>l\<in>set (result s). APIResources l = []) \<and>
      dom (grVersions s) = fst ` set (grApiResources s))"

text \<open>The number of resources that a sequence of lists holds for a group-version.\<close>

definition resourceCount :: "string \<Rightarrow> APIResourceList list \<Rightarrow> nat" where
  "resourceCount gv rls =
     sum_list (map (\<lambda>rl. length (APIResources rl))
                (filter (\<lambda>rl. APIResourceList.GroupVersion rl = gv) rls))"

text \<open>The group-versions that the first loop visits, in its order.\<close>

definition visited :: "APIGroup list \<Rightarrow> string list" where
  "visited gs = concat (map (\<lambda>g. map GroupVersionForDiscovery.GroupVersion (Versions g)) gs)"

subsection \<open>The rule of selection, in the words of the specification\<close>

text \<open>
  A visit is one turn of the loop over the versions of a group, with the resource list
  that was fetched for it; \<open>visit\<close> is what lines 141 to 160 do with it. The visits of
  a group list are its groups in their order, each with its versions in their declared
  order, paired with the lists fetched for them.
\<close>

type_synonym visit = "APIGroup \<times> GroupVersionForDiscovery \<times> APIResource list"

definition visit :: "selection \<Rightarrow> visit \<Rightarrow> selection" where
  "visit s x = (case x of (g, v, rs) \<Rightarrow> selectResources g v rs (addEmptyList g v s))"

definition versionsOf :: "APIGroup list \<Rightarrow> (APIGroup \<times> GroupVersionForDiscovery) list" where
  "versionsOf gs = concat (map (\<lambda>g. map (Pair g) (Versions g)) gs)"

definition visits :: "APIGroup list \<Rightarrow> APIResourceList list \<Rightarrow> visit list" where
  "visits gs ls = map (\<lambda>((g, v), l). (g, v, APIResources l)) (zip (versionsOf gs) ls)"

text \<open>
  The occurrences of a key (a group name and a resource name) in the visits, in the
  order in which the loops meet them: each is a resource of that name in a list of a
  group of that name, with the version of the visit and whether that version is the
  preferred version of the visited group.
\<close>

definition occurrences :: "visit list \<Rightarrow> GroupResource \<Rightarrow> (string \<times> bool \<times> APIResource) list" where
  "occurrences vs k =
     concat (map (\<lambda>(g, v, rs).
        if APIGroup.Name g = fst k
        then map (\<lambda>r. (Version v, Version v = Version (PreferredVersion g), r))
               (filter (\<lambda>r. APIResource.Name r = snd k) rs)
        else []) vs)"

text \<open>
  The rule of the specification: the first version seen for a key is recorded, and a
  later one replaces what is recorded if and only if it is the preferred version of the
  group. A name with a slash is no key.
\<close>

fun seen ::
  "(string \<times> APIResource) option \<Rightarrow> string \<times> bool \<times> APIResource \<Rightarrow> (string \<times> APIResource) option"
where
  "seen None (version, preferred, r) = Some (version, r)"
| "seen (Some recorded) (version, preferred, r) =
     (if preferred then Some (version, r) else Some recorded)"

definition winner :: "visit list \<Rightarrow> GroupResource \<Rightarrow> (string \<times> APIResource) option" where
  "winner vs k =
     (if CHR ''/'' \<in> set (snd k) then None else foldl seen None (occurrences vs k))"

text \<open>The position of the last visit of a group name and a version, if there is one.\<close>

definition lastVisit :: "visit list \<Rightarrow> GroupVersion \<Rightarrow> nat option" where
  "lastVisit vs gv =
     (case filter (\<lambda>i. case vs ! i of (g, v, rs) \<Rightarrow> (APIGroup.Name g, Version v) = gv)
             [0..<length vs] of
        [] \<Rightarrow> None
      | i # js \<Rightarrow> Some (last (i # js)))"

text \<open>What the selection holds for a key, as the last loop reads it (lines 165 to
  167): the descriptor, and the version, which reads as the empty string when missing.\<close>

definition recorded :: "selection \<Rightarrow> GroupResource \<Rightarrow> (string \<times> APIResource) option" where
  "recorded s k =
     (case map_of (grApiResources s) k of
        None \<Rightarrow> None
      | Some r \<Rightarrow> Some (case grVersions s k of None \<Rightarrow> [] | Some v \<Rightarrow> v, r))"

text \<open>The resource lists of the small cluster, in the order of its visits.\<close>

definition clusterLists :: "APIResourceList list" where
  "clusterLists =
     [\<lparr>APIResourceList.GroupVersion = ''apps/v1beta1'',
       APIResources = [resource ''deployments'' ''DeploymentBeta'' True,
                       resource ''deployments/scale'' ''Scale'' True,
                       resource ''statefulsets'' ''StatefulSet'' True]\<rparr>,
      \<lparr>APIResourceList.GroupVersion = ''apps/v1'',
       APIResources = [resource ''deployments'' ''Deployment'' True]\<rparr>,
      \<lparr>APIResourceList.GroupVersion = ''v1'',
       APIResources = [resource ''pods'' ''Pod'' True,
                       resource ''pods/status'' ''Pod'' True,
                       resource ''nodes'' ''Node'' False]\<rparr>]"

text \<open>The selection that the first loop ends with on the small cluster.\<close>

definition clusterSelection :: selection where
  "clusterSelection =
     \<lparr>result =
        [\<lparr>APIResourceList.GroupVersion = ''apps/v1beta1'', APIResources = []\<rparr>,
         \<lparr>APIResourceList.GroupVersion = ''apps/v1'', APIResources = []\<rparr>,
         \<lparr>APIResourceList.GroupVersion = ''v1'', APIResources = []\<rparr>],
      grVersions =
        [(''apps'', ''statefulsets'') \<mapsto> ''v1beta1'', (''apps'', ''deployments'') \<mapsto> ''v1'',
         ([], ''pods'') \<mapsto> ''v1'', ([], ''nodes'') \<mapsto> ''v1''],
      grApiResources =
        [((''apps'', ''deployments''), resource ''deployments'' ''Deployment'' True),
         ((''apps'', ''statefulsets''), resource ''statefulsets'' ''StatefulSet'' True),
         (([], ''pods''), resource ''pods'' ''Pod'' True),
         (([], ''nodes''), resource ''nodes'' ''Node'' False)],
      gvApiResourceLists =
        [(''apps'', ''v1beta1'') \<mapsto> 0, (''apps'', ''v1'') \<mapsto> 1, ([], ''v1'') \<mapsto> 2]\<rparr>"

section \<open>The cache methods, case by case\<close>

lemma index_make_map: "index make_map k = None"
  by (simp add: index_def make_map_def)

lemma index_upd: "index (Some (m(k \<mapsto> r))) k = r"
  by (simp add: index_def)

lemma index_nil: "index None k = None"
  by (simp add: index_def)

lemma ServerGroups_hit: "servergroups c = Some g \<Longrightarrow> ServerGroups c = ((Some g, None), c)"
  by (simp add: ServerGroups_def)

lemma ServerGroups_miss:
  "servergroups c = None \<Longrightarrow>
   ServerGroups c =
     (cl_ServerGroups (cl c) (issued c),
      c\<lparr>issued := issued c @ [CallServerGroups],
        servergroups := fst (cl_ServerGroups (cl c) (issued c))\<rparr>)"
  by (simp add: ServerGroups_def case_prod_beta Let_def)

lemma ServerResources_hit:
  "index (serverresources c) gv = Some l \<Longrightarrow>
   ServerResourcesForGroupVersion c gv = (Inr (Some l, None), c)"
  by (simp add: ServerResourcesForGroupVersion_def)

lemma ServerResources_miss:
  "index (serverresources c) gv = None \<Longrightarrow> serverresources c = Some m \<Longrightarrow>
   ServerResourcesForGroupVersion c gv =
     (Inr (cl_ServerResourcesForGroupVersion (cl c) (issued c) gv),
      c\<lparr>issued := issued c @ [CallServerResourcesForGroupVersion gv],
        serverresources :=
          Some (m(gv \<mapsto> fst (cl_ServerResourcesForGroupVersion (cl c) (issued c) gv)))\<rparr>)"
  by (simp add: ServerResourcesForGroupVersion_def case_prod_beta Let_def index_upd)

lemma ServerResources_nil_map:
  "serverresources c = None \<Longrightarrow>
   ServerResourcesForGroupVersion c gv =
     (Inl NilMapAssignment, c\<lparr>issued := issued c @ [CallServerResourcesForGroupVersion gv]\<rparr>)"
  by (simp add: ServerResourcesForGroupVersion_def case_prod_beta Let_def index_nil)

lemma ServerVersion_hit: "serverVersion c = Some i \<Longrightarrow> ServerVersion c = ((Some i, None), c)"
  by (simp add: ServerVersion_def)

lemma ServerVersion_fail:
  "serverVersion c = None \<Longrightarrow> snd (cl_ServerVersion (cl c) (issued c)) = Some e \<Longrightarrow>
   ServerVersion c = ((None, Some e), c\<lparr>issued := issued c @ [CallServerVersion]\<rparr>)"
  by (simp add: ServerVersion_def case_prod_beta Let_def)

lemma ServerVersion_fill:
  "serverVersion c = None \<Longrightarrow> snd (cl_ServerVersion (cl c) (issued c)) = None \<Longrightarrow>
   ServerVersion c =
     ((fst (cl_ServerVersion (cl c) (issued c)), None),
      c\<lparr>issued := issued c @ [CallServerVersion],
        serverVersion := fst (cl_ServerVersion (cl c) (issued c))\<rparr>)"
  by (simp add: ServerVersion_def case_prod_beta Let_def)

lemma OpenAPISchema_hit: "schema c = Some d \<Longrightarrow> OpenAPISchema c = ((Some d, None), c)"
  by (simp add: OpenAPISchema_def)

lemma OpenAPISchema_fail:
  "schema c = None \<Longrightarrow> snd (cl_OpenAPISchema (cl c) (issued c)) = Some e \<Longrightarrow>
   OpenAPISchema c = ((None, Some e), c\<lparr>issued := issued c @ [CallOpenAPISchema]\<rparr>)"
  by (simp add: OpenAPISchema_def case_prod_beta Let_def)

lemma OpenAPISchema_fill:
  "schema c = None \<Longrightarrow> snd (cl_OpenAPISchema (cl c) (issued c)) = None \<Longrightarrow>
   OpenAPISchema c =
     ((fst (cl_OpenAPISchema (cl c) (issued c)), None),
      c\<lparr>issued := issued c @ [CallOpenAPISchema],
        schema := fst (cl_OpenAPISchema (cl c) (issued c))\<rparr>)"
  by (simp add: OpenAPISchema_def case_prod_beta Let_def)

lemma SwaggerSchema_hit:
  "index (schemas c) (String v) = Some d \<Longrightarrow> SwaggerSchema String c v = (Inr (Some d, None), c)"
  by (simp add: SwaggerSchema_def)

lemma SwaggerSchema_fail:
  "index (schemas c) (String v) = None \<Longrightarrow>
   snd (cl_SwaggerSchema (cl c) (issued c) v) = Some e \<Longrightarrow>
   SwaggerSchema String c v =
     (Inr (None, Some e), c\<lparr>issued := issued c @ [CallSwaggerSchema v]\<rparr>)"
  by (simp add: SwaggerSchema_def case_prod_beta Let_def)

lemma SwaggerSchema_fill:
  "index (schemas c) (String v) = None \<Longrightarrow>
   snd (cl_SwaggerSchema (cl c) (issued c) v) = None \<Longrightarrow> schemas c = Some m \<Longrightarrow>
   SwaggerSchema String c v =
     (Inr (fst (cl_SwaggerSchema (cl c) (issued c) v), None),
      c\<lparr>issued := issued c @ [CallSwaggerSchema v],
        schemas := Some (m(String v \<mapsto> fst (cl_SwaggerSchema (cl c) (issued c) v)))\<rparr>)"
  by (simp add: SwaggerSchema_def case_prod_beta Let_def)

lemma SwaggerSchema_nil_map:
  "snd (cl_SwaggerSchema (cl c) (issued c) v) = None \<Longrightarrow> schemas c = None \<Longrightarrow>
   SwaggerSchema String c v =
     (Inl NilMapAssignment, c\<lparr>issued := issued c @ [CallSwaggerSchema v]\<rparr>)"
  by (simp add: SwaggerSchema_def case_prod_beta Let_def index_nil)

lemma Invalidate_fields:
  "servergroups (Invalidate c) = None" "serverresources (Invalidate c) = make_map"
  "schemas (Invalidate c) = make_map" "schema (Invalidate c) = None"
  "serverVersion (Invalidate c) = None" "cl (Invalidate c) = cl c"
  "issued (Invalidate c) = issued c"
  by (simp_all add: Invalidate_def)

lemma ServerVersion_issued:
  "issued (snd (ServerVersion c)) =
     (if serverVersion c = None then issued c @ [CallServerVersion] else issued c)"
  by (simp add: ServerVersion_def case_prod_beta Let_def)

lemma OpenAPISchema_issued:
  "issued (snd (OpenAPISchema c)) =
     (if schema c = None then issued c @ [CallOpenAPISchema] else issued c)"
  by (simp add: OpenAPISchema_def case_prod_beta Let_def)

lemma SwaggerSchema_issued:
  "issued (snd (SwaggerSchema String c v)) =
     (if index (schemas c) (String v) = None then issued c @ [CallSwaggerSchema v] else issued c)"
  by (simp add: SwaggerSchema_def case_prod_beta Let_def split: option.split)

lemma SwaggerSchema_allocated:
  "schemas c = Some m \<Longrightarrow> \<not> isl (fst (SwaggerSchema String c v))"
  by (simp add: SwaggerSchema_def case_prod_beta Let_def)

section \<open>Invalidation\<close>

text \<open>
  Claim C3. \<^verbatim>\<open>Invalidate\<close> puts all five cache slots into their empty state (no group
  list, two freshly made empty maps, no unified schema, no server version) in one step,
  and leaves the provider and its call log alone. It is a total function with no error
  or panic result. Right after it, each of the five read-through methods issues one
  fresh call to the provider; the two that write into a map do not panic, and the group
  list and resource list returned are the provider's replies.
\<close>

theorem Invalidate_resets:
  "servergroups (Invalidate c) = None \<and>
   serverresources (Invalidate c) = make_map \<and>
   schemas (Invalidate c) = make_map \<and>
   schema (Invalidate c) = None \<and>
   serverVersion (Invalidate c) = None \<and>
   cl (Invalidate c) = cl c \<and> issued (Invalidate c) = issued c \<and>
   issued (snd (ServerGroups (Invalidate c))) = issued c @ [CallServerGroups] \<and>
   fst (ServerGroups (Invalidate c)) = cl_ServerGroups (cl c) (issued c) \<and>
   issued (snd (ServerResourcesForGroupVersion (Invalidate c) gv)) =
     issued c @ [CallServerResourcesForGroupVersion gv] \<and>
   fst (ServerResourcesForGroupVersion (Invalidate c) gv) =
     Inr (cl_ServerResourcesForGroupVersion (cl c) (issued c) gv) \<and>
   issued (snd (SwaggerSchema String (Invalidate c) v)) = issued c @ [CallSwaggerSchema v] \<and>
   \<not> isl (fst (SwaggerSchema String (Invalidate c) v)) \<and>
   issued (snd (OpenAPISchema (Invalidate c))) = issued c @ [CallOpenAPISchema] \<and>
   issued (snd (ServerVersion (Invalidate c))) = issued c @ [CallServerVersion]"
proof -
  have g: "ServerGroups (Invalidate c) =
      (cl_ServerGroups (cl c) (issued c),
       (Invalidate c)\<lparr>issued := issued c @ [CallServerGroups],
          servergroups := fst (cl_ServerGroups (cl c) (issued c))\<rparr>)"
    using ServerGroups_miss [of "Invalidate c"] by (simp add: Invalidate_fields)
  have r: "ServerResourcesForGroupVersion (Invalidate c) gv =
     (Inr (cl_ServerResourcesForGroupVersion (cl c) (issued c) gv),
      (Invalidate c)\<lparr>issued := issued c @ [CallServerResourcesForGroupVersion gv],
        serverresources :=
          Some (Map.empty(gv \<mapsto> fst (cl_ServerResourcesForGroupVersion (cl c) (issued c) gv)))\<rparr>)"
    using ServerResources_miss [of "Invalidate c" gv Map.empty]
    by (simp add: Invalidate_fields index_make_map) (simp add: make_map_def)
  have s: "\<not> isl (fst (SwaggerSchema String (Invalidate c) v))"
    by (rule SwaggerSchema_allocated [of _ Map.empty]) (simp add: Invalidate_fields make_map_def)
  show ?thesis
    by (simp add: Invalidate_fields g r s ServerVersion_issued OpenAPISchema_issued
        SwaggerSchema_issued index_make_map)
qed

lemma New_fields:
  "cl (NewMemcachedDiscoveryClient d) = d" "issued (NewMemcachedDiscoveryClient d) = []"
  "servergroups (NewMemcachedDiscoveryClient d) = None"
  "serverresources (NewMemcachedDiscoveryClient d) = make_map"
  "schemas (NewMemcachedDiscoveryClient d) = make_map"
  "schema (NewMemcachedDiscoveryClient d) = None"
  "serverVersion (NewMemcachedDiscoveryClient d) = None"
  by (simp_all add: NewMemcachedDiscoveryClient_def Invalidate_def zero_client_def)

lemma down_replies:
  "cl_ServerGroups down h = (None, Some (ProviderError ''down''))"
  "cl_ServerResourcesForGroupVersion down h gv = (None, Some (ProviderError ''down''))"
  "cl_ServerVersion down h = (None, Some (ProviderError ''down''))"
  "cl_SwaggerSchema down h v = (None, Some (ProviderError ''down''))"
  "cl_OpenAPISchema down h = (None, Some (ProviderError ''down''))"
  by (simp_all add: down_def)

lemma ServerVersion_slot:
  "serverVersion (snd (ServerVersion c)) =
     (if serverVersion c = None \<and> snd (cl_ServerVersion (cl c) (issued c)) = None
      then fst (cl_ServerVersion (cl c) (issued c)) else serverVersion c)"
  by (simp add: ServerVersion_def case_prod_beta Let_def)

lemma OpenAPISchema_slot:
  "schema (snd (OpenAPISchema c)) =
     (if schema c = None \<and> snd (cl_OpenAPISchema (cl c) (issued c)) = None
      then fst (cl_OpenAPISchema (cl c) (issued c)) else schema c)"
  by (simp add: OpenAPISchema_def case_prod_beta Let_def)

lemma SwaggerSchema_slot:
  "schemas (snd (SwaggerSchema String c v)) =
     (if index (schemas c) (String v) = None \<and> snd (cl_SwaggerSchema (cl c) (issued c) v) = None
      then map_option (\<lambda>m. m(String v \<mapsto> fst (cl_SwaggerSchema (cl c) (issued c) v))) (schemas c)
      else schemas c)"
  by (simp add: SwaggerSchema_def case_prod_beta Let_def split: option.split)

section \<open>Errors of the provider\<close>

text \<open>
  Claim C8. \<^verbatim>\<open>ServerVersion\<close> does not cache on error: when its slot is empty and the
  provider's call fails, it returns nil with that error, the client is as before but for
  the logged call (so the slot is still empty), and the next call asks the provider
  again. \<^verbatim>\<open>OpenAPISchema\<close> and \<^verbatim>\<open>SwaggerSchema\<close> do the same. In every case the slot after
  a call is the provider's value if the slot was empty and the provider returned no
  error, and is unchanged otherwise: a result is stored on success only.
\<close>

theorem failed_fetch_stores_nothing:
  "(serverVersion c = None \<and> snd (cl_ServerVersion (cl c) (issued c)) = Some e1 \<longrightarrow>
      ServerVersion c = ((None, Some e1), c\<lparr>issued := issued c @ [CallServerVersion]\<rparr>) \<and>
      issued (snd (ServerVersion (snd (ServerVersion c)))) =
        issued c @ [CallServerVersion, CallServerVersion]) \<and>
   serverVersion (snd (ServerVersion c)) =
     (if serverVersion c = None \<and> snd (cl_ServerVersion (cl c) (issued c)) = None
      then fst (cl_ServerVersion (cl c) (issued c)) else serverVersion c) \<and>
   (schema c = None \<and> snd (cl_OpenAPISchema (cl c) (issued c)) = Some e2 \<longrightarrow>
      OpenAPISchema c = ((None, Some e2), c\<lparr>issued := issued c @ [CallOpenAPISchema]\<rparr>) \<and>
      issued (snd (OpenAPISchema (snd (OpenAPISchema c)))) =
        issued c @ [CallOpenAPISchema, CallOpenAPISchema]) \<and>
   schema (snd (OpenAPISchema c)) =
     (if schema c = None \<and> snd (cl_OpenAPISchema (cl c) (issued c)) = None
      then fst (cl_OpenAPISchema (cl c) (issued c)) else schema c) \<and>
   (index (schemas c) (String v) = None \<and> snd (cl_SwaggerSchema (cl c) (issued c) v) = Some e3 \<longrightarrow>
      SwaggerSchema String c v =
        (Inr (None, Some e3), c\<lparr>issued := issued c @ [CallSwaggerSchema v]\<rparr>) \<and>
      issued (snd (SwaggerSchema String (snd (SwaggerSchema String c v)) v)) =
        issued c @ [CallSwaggerSchema v, CallSwaggerSchema v]) \<and>
   schemas (snd (SwaggerSchema String c v)) =
     (if index (schemas c) (String v) = None \<and> snd (cl_SwaggerSchema (cl c) (issued c) v) = None
      then map_option (\<lambda>m. m(String v \<mapsto> fst (cl_SwaggerSchema (cl c) (issued c) v))) (schemas c)
      else schemas c)"
proof -
  have a: "ServerVersion c = ((None, Some e1), c\<lparr>issued := issued c @ [CallServerVersion]\<rparr>) \<and>
      issued (snd (ServerVersion (snd (ServerVersion c)))) =
        issued c @ [CallServerVersion, CallServerVersion]"
    if "serverVersion c = None" "snd (cl_ServerVersion (cl c) (issued c)) = Some e1"
    using that by (simp add: ServerVersion_fail ServerVersion_issued)
  have b: "OpenAPISchema c = ((None, Some e2), c\<lparr>issued := issued c @ [CallOpenAPISchema]\<rparr>) \<and>
      issued (snd (OpenAPISchema (snd (OpenAPISchema c)))) =
        issued c @ [CallOpenAPISchema, CallOpenAPISchema]"
    if "schema c = None" "snd (cl_OpenAPISchema (cl c) (issued c)) = Some e2"
    using that by (simp add: OpenAPISchema_fail OpenAPISchema_issued)
  have d: "SwaggerSchema String c v =
        (Inr (None, Some e3), c\<lparr>issued := issued c @ [CallSwaggerSchema v]\<rparr>) \<and>
      issued (snd (SwaggerSchema String (snd (SwaggerSchema String c v)) v)) =
        issued c @ [CallSwaggerSchema v, CallSwaggerSchema v]"
    if "index (schemas c) (String v) = None" "snd (cl_SwaggerSchema (cl c) (issued c) v) = Some e3"
    using that by (simp add: SwaggerSchema_fail SwaggerSchema_issued)
  show ?thesis
    using a b d ServerVersion_slot [of c] OpenAPISchema_slot [of c] SwaggerSchema_slot [of String c v]
    by blast
qed

theorem failed_fetch_stores_nothing_witness:
  "ServerVersion (NewMemcachedDiscoveryClient down) =
     ((None, Some (ProviderError ''down'')),
      (NewMemcachedDiscoveryClient down)\<lparr>issued := [CallServerVersion]\<rparr>) \<and>
   issued (snd (ServerVersion (snd (ServerVersion (NewMemcachedDiscoveryClient down))))) =
     [CallServerVersion, CallServerVersion] \<and>
   OpenAPISchema (NewMemcachedDiscoveryClient down) =
     ((None, Some (ProviderError ''down'')),
      (NewMemcachedDiscoveryClient down)\<lparr>issued := [CallOpenAPISchema]\<rparr>) \<and>
   SwaggerSchema groupVersionString (NewMemcachedDiscoveryClient down) (''apps'', ''v1'') =
     (Inr (None, Some (ProviderError ''down'')),
      (NewMemcachedDiscoveryClient down)\<lparr>issued := [CallSwaggerSchema (''apps'', ''v1'')]\<rparr>) \<and>
   schemas (snd (SwaggerSchema groupVersionString (NewMemcachedDiscoveryClient down)
      (''apps'', ''v1''))) = make_map"
proof -
  let ?c = "NewMemcachedDiscoveryClient down"
  have p: "snd (cl_ServerVersion (cl ?c) (issued ?c)) = Some (ProviderError ''down'')"
    "snd (cl_OpenAPISchema (cl ?c) (issued ?c)) = Some (ProviderError ''down'')"
    "snd (cl_SwaggerSchema (cl ?c) (issued ?c) (''apps'', ''v1'')) = Some (ProviderError ''down'')"
    by (simp_all add: New_fields down_replies)
  show ?thesis
    using failed_fetch_stores_nothing [of ?c "ProviderError ''down''" "ProviderError ''down''"
        groupVersionString "(''apps'', ''v1'')" "ProviderError ''down''"] p
    by (auto simp add: index_make_map New_fields)
qed

lemma ServerGroups_issued:
  "issued (snd (ServerGroups c)) =
     (if servergroups c = None then issued c @ [CallServerGroups] else issued c)"
  by (simp add: ServerGroups_def case_prod_beta Let_def split: option.split)

lemma ServerResources_issued:
  "issued (snd (ServerResourcesForGroupVersion c gv)) =
     (if index (serverresources c) gv = None
      then issued c @ [CallServerResourcesForGroupVersion gv] else issued c)"
  by (simp add: ServerResourcesForGroupVersion_def case_prod_beta Let_def split: option.split)

lemma ServerGroups_after: "servergroups (snd (ServerGroups c)) = fst (fst (ServerGroups c))"
  by (simp add: ServerGroups_def case_prod_beta Let_def split: option.split)

lemma ServerResources_after:
  "fst (ServerResourcesForGroupVersion c gv) = Inr (r, e) \<Longrightarrow>
   index (serverresources (snd (ServerResourcesForGroupVersion c gv))) gv = r"
  by (auto simp add: ServerResourcesForGroupVersion_def case_prod_beta Let_def index_upd
      split: option.splits)

lemma ServerVersion_after: "serverVersion (snd (ServerVersion c)) = fst (fst (ServerVersion c))"
  by (simp add: ServerVersion_def case_prod_beta Let_def)

lemma OpenAPISchema_after: "schema (snd (OpenAPISchema c)) = fst (fst (OpenAPISchema c))"
  by (simp add: OpenAPISchema_def case_prod_beta Let_def)

lemma SwaggerSchema_after:
  "fst (SwaggerSchema String c v) = Inr (r, e) \<Longrightarrow>
   index (schemas (snd (SwaggerSchema String c v))) (String v) = r"
  by (auto simp add: SwaggerSchema_def case_prod_beta Let_def index_upd
      split: option.splits if_splits)

lemma cluster_replies:
  "cl_ServerGroups cluster h = (Some \<lparr>Groups = [appsGroup, coreGroup]\<rparr>, None)"
  "cl_ServerResourcesForGroupVersion cluster h gv = clusterResources gv"
  "cl_ServerVersion cluster h = (Some (Info ''v1.9.0''), None)"
  "cl_SwaggerSchema cluster h v = (Some (ApiDeclaration (snd v)), None)"
  "cl_OpenAPISchema cluster h = (Some (Document ''swagger''), None)"
  by (simp_all add: cluster_def)

lemma New_ServerGroups:
  "ServerGroups (NewMemcachedDiscoveryClient d) =
     (cl_ServerGroups d [],
      (NewMemcachedDiscoveryClient d)\<lparr>issued := [CallServerGroups],
         servergroups := fst (cl_ServerGroups d [])\<rparr>)"
  using ServerGroups_miss [of "NewMemcachedDiscoveryClient d"] by (simp add: New_fields)

lemma New_ServerResources:
  "ServerResourcesForGroupVersion (NewMemcachedDiscoveryClient d) gv =
     (Inr (cl_ServerResourcesForGroupVersion d [] gv),
      (NewMemcachedDiscoveryClient d)\<lparr>issued := [CallServerResourcesForGroupVersion gv],
         serverresources :=
           Some (Map.empty(gv \<mapsto> fst (cl_ServerResourcesForGroupVersion d [] gv)))\<rparr>)"
  using ServerResources_miss [of "NewMemcachedDiscoveryClient d" gv Map.empty]
  by (simp add: New_fields index_make_map) (simp add: make_map_def)

section \<open>Calling a method twice\<close>

text \<open>
  The claim C4 as stated, that two calls in a row issue exactly one call to the provider
  and return the same value, fails when the first call fails: the provider that is down
  is asked twice by two calls of \<^verbatim>\<open>ServerVersion\<close>, and both return its error.
\<close>

theorem failed_call_is_repeated:
  "fst (ServerVersion (NewMemcachedDiscoveryClient down)) = (None, Some (ProviderError ''down'')) \<and>
   fst (ServerVersion (snd (ServerVersion (NewMemcachedDiscoveryClient down)))) =
     (None, Some (ProviderError ''down'')) \<and>
   issued (snd (ServerVersion (snd (ServerVersion (NewMemcachedDiscoveryClient down))))) =
     [CallServerVersion, CallServerVersion]"
proof -
  let ?c = "NewMemcachedDiscoveryClient down"
  have 1: "ServerVersion ?c = ((None, Some (ProviderError ''down'')), ?c\<lparr>issued := [CallServerVersion]\<rparr>)"
    using ServerVersion_fail [of ?c "ProviderError ''down''"]
    by (simp add: New_fields down_replies)
  have 2: "ServerVersion (?c\<lparr>issued := [CallServerVersion]\<rparr>) =
     ((None, Some (ProviderError ''down'')),
      ?c\<lparr>issued := [CallServerVersion, CallServerVersion]\<rparr>)"
    using ServerVersion_fail [of "?c\<lparr>issued := [CallServerVersion]\<rparr>" "ProviderError ''down''"]
    by (simp add: New_fields down_replies)
  show ?thesis by (simp add: 1 2)
qed

text \<open>
  Claim C4, amended. For each of the five read-through methods: if a call returns a
  value that is not nil, then the same call made next returns that value again with a
  nil error, leaves the client as it is and so asks the provider nothing; and the first
  call asked the provider once if its slot was empty and not at all otherwise.
\<close>

theorem second_call_is_served_from_cache:
  "(fst (fst (ServerGroups c)) = Some g \<longrightarrow>
      ServerGroups (snd (ServerGroups c)) = ((Some g, None), snd (ServerGroups c)) \<and>
      issued (snd (ServerGroups c)) =
        (if servergroups c = None then issued c @ [CallServerGroups] else issued c)) \<and>
   (fst (ServerResourcesForGroupVersion c gv) = Inr (Some l, e1) \<longrightarrow>
      ServerResourcesForGroupVersion (snd (ServerResourcesForGroupVersion c gv)) gv =
        (Inr (Some l, None), snd (ServerResourcesForGroupVersion c gv)) \<and>
      issued (snd (ServerResourcesForGroupVersion c gv)) =
        (if index (serverresources c) gv = None
         then issued c @ [CallServerResourcesForGroupVersion gv] else issued c)) \<and>
   (fst (SwaggerSchema String c v) = Inr (Some a, e2) \<longrightarrow>
      SwaggerSchema String (snd (SwaggerSchema String c v)) v =
        (Inr (Some a, None), snd (SwaggerSchema String c v)) \<and>
      issued (snd (SwaggerSchema String c v)) =
        (if index (schemas c) (String v) = None then issued c @ [CallSwaggerSchema v]
         else issued c)) \<and>
   (fst (fst (OpenAPISchema c)) = Some d \<longrightarrow>
      OpenAPISchema (snd (OpenAPISchema c)) = ((Some d, None), snd (OpenAPISchema c)) \<and>
      issued (snd (OpenAPISchema c)) =
        (if schema c = None then issued c @ [CallOpenAPISchema] else issued c)) \<and>
   (fst (fst (ServerVersion c)) = Some i \<longrightarrow>
      ServerVersion (snd (ServerVersion c)) = ((Some i, None), snd (ServerVersion c)) \<and>
      issued (snd (ServerVersion c)) =
        (if serverVersion c = None then issued c @ [CallServerVersion] else issued c))"
proof -
  have 1: "ServerGroups (snd (ServerGroups c)) = ((Some g, None), snd (ServerGroups c))"
    if "fst (fst (ServerGroups c)) = Some g"
    using that by (simp add: ServerGroups_hit ServerGroups_after)
  have 2: "ServerResourcesForGroupVersion (snd (ServerResourcesForGroupVersion c gv)) gv =
        (Inr (Some l, None), snd (ServerResourcesForGroupVersion c gv))"
    if "fst (ServerResourcesForGroupVersion c gv) = Inr (Some l, e1)"
    using that by (simp add: ServerResources_hit ServerResources_after)
  have 3: "SwaggerSchema String (snd (SwaggerSchema String c v)) v =
        (Inr (Some a, None), snd (SwaggerSchema String c v))"
    if "fst (SwaggerSchema String c v) = Inr (Some a, e2)"
    using that by (simp add: SwaggerSchema_hit SwaggerSchema_after)
  have 4: "OpenAPISchema (snd (OpenAPISchema c)) = ((Some d, None), snd (OpenAPISchema c))"
    if "fst (fst (OpenAPISchema c)) = Some d"
    using that by (simp add: OpenAPISchema_hit OpenAPISchema_after)
  have 5: "ServerVersion (snd (ServerVersion c)) = ((Some i, None), snd (ServerVersion c))"
    if "fst (fst (ServerVersion c)) = Some i"
    using that by (simp add: ServerVersion_hit ServerVersion_after)
  show ?thesis
    using 1 2 3 4 5 ServerGroups_issued [of c] ServerResources_issued [of c gv]
      SwaggerSchema_issued [of String c v] OpenAPISchema_issued [of c] ServerVersion_issued [of c]
    by blast
qed


theorem second_call_is_served_from_cache_witness:
  "ServerGroups (snd (ServerGroups (NewMemcachedDiscoveryClient cluster))) =
     ((Some \<lparr>Groups = [appsGroup, coreGroup]\<rparr>, None),
      snd (ServerGroups (NewMemcachedDiscoveryClient cluster))) \<and>
   issued (snd (ServerGroups (NewMemcachedDiscoveryClient cluster))) = [CallServerGroups] \<and>
   fst (ServerResourcesForGroupVersion
         (snd (ServerResourcesForGroupVersion (NewMemcachedDiscoveryClient cluster) ''apps/v1''))
         ''apps/v1'') =
     Inr (Some \<lparr>APIResourceList.GroupVersion = ''apps/v1'',
                 APIResources = [resource ''deployments'' ''Deployment'' True]\<rparr>, None) \<and>
   issued (snd (ServerResourcesForGroupVersion (NewMemcachedDiscoveryClient cluster) ''apps/v1'')) =
     [CallServerResourcesForGroupVersion ''apps/v1''] \<and>
   fst (SwaggerSchema groupVersionString
         (snd (SwaggerSchema groupVersionString (NewMemcachedDiscoveryClient cluster)
                (''apps'', ''v1''))) (''apps'', ''v1'')) =
     Inr (Some (ApiDeclaration ''v1''), None) \<and>
   issued (snd (SwaggerSchema groupVersionString (NewMemcachedDiscoveryClient cluster)
                 (''apps'', ''v1''))) = [CallSwaggerSchema (''apps'', ''v1'')] \<and>
   fst (OpenAPISchema (snd (OpenAPISchema (NewMemcachedDiscoveryClient cluster)))) =
     (Some (Document ''swagger''), None) \<and>
   issued (snd (OpenAPISchema (NewMemcachedDiscoveryClient cluster))) = [CallOpenAPISchema] \<and>
   fst (ServerVersion (snd (ServerVersion (NewMemcachedDiscoveryClient cluster)))) =
     (Some (Info ''v1.9.0''), None) \<and>
   issued (snd (ServerVersion (NewMemcachedDiscoveryClient cluster))) = [CallServerVersion]"
proof -
  let ?c = "NewMemcachedDiscoveryClient cluster"
  let ?l = "\<lparr>APIResourceList.GroupVersion = ''apps/v1'',
                  APIResources = [resource ''deployments'' ''Deployment'' True]\<rparr>"
  have g: "fst (fst (ServerGroups ?c)) = Some \<lparr>Groups = [appsGroup, coreGroup]\<rparr>"
    by (simp add: New_ServerGroups cluster_replies)
  have r: "fst (ServerResourcesForGroupVersion ?c ''apps/v1'') = Inr (Some ?l, None)"
    by (simp add: New_ServerResources cluster_replies clusterResources_def)
  have s: "fst (SwaggerSchema groupVersionString ?c (''apps'', ''v1'')) =
      Inr (Some (ApiDeclaration ''v1''), None)"
    using SwaggerSchema_fill [of ?c groupVersionString "(''apps'', ''v1'')" Map.empty]
    by (simp add: New_fields cluster_replies index_make_map) (simp add: make_map_def)
  have d: "fst (fst (OpenAPISchema ?c)) = Some (Document ''swagger'')"
    using OpenAPISchema_fill [of ?c] by (simp add: New_fields cluster_replies)
  have i: "fst (fst (ServerVersion ?c)) = Some (Info ''v1.9.0'')"
    using ServerVersion_fill [of ?c] by (simp add: New_fields cluster_replies)
  note t = second_call_is_served_from_cache [of ?c "\<lparr>Groups = [appsGroup, coreGroup]\<rparr>"
        "''apps/v1''" ?l None groupVersionString "(''apps'', ''v1'')" "ApiDeclaration ''v1''" None
        "Document ''swagger''" "Info ''v1.9.0''"]
  note t1 = t [THEN conjunct1, THEN mp, OF g]
    and t2 = t [THEN conjunct2, THEN conjunct1, THEN mp, OF r]
    and t3 = t [THEN conjunct2, THEN conjunct2, THEN conjunct1, THEN mp, OF s]
    and t4 = t [THEN conjunct2, THEN conjunct2, THEN conjunct2, THEN conjunct1, THEN mp, OF d]
    and t5 = t [THEN conjunct2, THEN conjunct2, THEN conjunct2, THEN conjunct2, THEN mp, OF i]
  show ?thesis
    using t1 t2 t3 t4 t5 by (simp add: New_fields index_make_map)
qed

section \<open>A failed fetch and the cache slot\<close>

text \<open>
  The claim C2 as stated, that a nil result stored by a failed fetch is returned as nil
  without error by the next call and without a fresh call to the provider, fails: both
  methods test the slot against nil before they use it, so the next call asks the
  provider again and returns its reply, here the error once more.
\<close>

theorem nil_result_is_fetched_again:
  "fst (ServerGroups (NewMemcachedDiscoveryClient down)) =
     (None, Some (ProviderError ''down'')) \<and>
   fst (ServerGroups (snd (ServerGroups (NewMemcachedDiscoveryClient down)))) =
     (None, Some (ProviderError ''down'')) \<and>
   issued (snd (ServerGroups (snd (ServerGroups (NewMemcachedDiscoveryClient down))))) =
     [CallServerGroups, CallServerGroups] \<and>
   fst (ServerResourcesForGroupVersion (NewMemcachedDiscoveryClient down) ''apps/v1'') =
     Inr (None, Some (ProviderError ''down'')) \<and>
   fst (ServerResourcesForGroupVersion
         (snd (ServerResourcesForGroupVersion (NewMemcachedDiscoveryClient down) ''apps/v1''))
         ''apps/v1'') =
     Inr (None, Some (ProviderError ''down'')) \<and>
   issued (snd (ServerResourcesForGroupVersion
         (snd (ServerResourcesForGroupVersion (NewMemcachedDiscoveryClient down) ''apps/v1''))
         ''apps/v1'')) =
     [CallServerResourcesForGroupVersion ''apps/v1'', CallServerResourcesForGroupVersion ''apps/v1'']"
proof -
  let ?c = "NewMemcachedDiscoveryClient down"
  let ?g = "?c\<lparr>issued := [CallServerGroups], servergroups := None\<rparr>"
  let ?r = "?c\<lparr>issued := [CallServerResourcesForGroupVersion ''apps/v1''],
              serverresources := Some (Map.empty(''apps/v1'' \<mapsto> None))\<rparr>"
  have 1: "ServerGroups ?c = ((None, Some (ProviderError ''down'')), ?g)"
    by (simp add: New_ServerGroups down_replies)
  have 2: "ServerGroups ?g = ((None, Some (ProviderError ''down'')),
      ?g\<lparr>issued := [CallServerGroups, CallServerGroups], servergroups := None\<rparr>)"
    using ServerGroups_miss [of ?g] by (simp add: New_fields down_replies)
  have 3: "ServerResourcesForGroupVersion ?c ''apps/v1'' =
      (Inr (None, Some (ProviderError ''down'')), ?r)"
    by (simp add: New_ServerResources down_replies)
  have 4: "ServerResourcesForGroupVersion ?r ''apps/v1'' =
      (Inr (None, Some (ProviderError ''down'')),
       ?r\<lparr>issued := [CallServerResourcesForGroupVersion ''apps/v1'',
                      CallServerResourcesForGroupVersion ''apps/v1''],
          serverresources := Some (Map.empty(''apps/v1'' \<mapsto> None))\<rparr>)"
    using ServerResources_miss [of ?r "''apps/v1''" "Map.empty(''apps/v1'' \<mapsto> None)"]
    by (simp add: New_fields down_replies index_upd)
  show ?thesis by (simp add: 1 2 3 4)
qed

text \<open>
  Claim C2, amended. When the slot is empty and the provider's call fails,
  \<^verbatim>\<open>ServerGroups\<close> and \<^verbatim>\<open>ServerResourcesForGroupVersion\<close> still assign the provider's
  result to the slot and return it with the error. If that result is not nil, the next
  call returns it with a nil error and asks the provider nothing. If it is nil, the next
  call issues a fresh call to the provider and returns its reply.
\<close>

theorem failed_fetch_is_stored:
  "(servergroups c = None \<and> cl_ServerGroups (cl c) (issued c) = (r1, Some e1) \<longrightarrow>
      ServerGroups c =
        ((r1, Some e1), c\<lparr>issued := issued c @ [CallServerGroups], servergroups := r1\<rparr>) \<and>
      (case r1 of
         Some g \<Rightarrow> ServerGroups (snd (ServerGroups c)) = ((Some g, None), snd (ServerGroups c))
       | None \<Rightarrow>
           issued (snd (ServerGroups (snd (ServerGroups c)))) =
             issued c @ [CallServerGroups, CallServerGroups] \<and>
           fst (ServerGroups (snd (ServerGroups c))) =
             cl_ServerGroups (cl c) (issued c @ [CallServerGroups]))) \<and>
   (serverresources c = Some m \<and> index (serverresources c) gv = None \<and>
    cl_ServerResourcesForGroupVersion (cl c) (issued c) gv = (r2, Some e2) \<longrightarrow>
      ServerResourcesForGroupVersion c gv =
        (Inr (r2, Some e2),
         c\<lparr>issued := issued c @ [CallServerResourcesForGroupVersion gv],
           serverresources := Some (m(gv \<mapsto> r2))\<rparr>) \<and>
      (case r2 of
         Some l \<Rightarrow>
           ServerResourcesForGroupVersion (snd (ServerResourcesForGroupVersion c gv)) gv =
             (Inr (Some l, None), snd (ServerResourcesForGroupVersion c gv))
       | None \<Rightarrow>
           issued (snd (ServerResourcesForGroupVersion
                         (snd (ServerResourcesForGroupVersion c gv)) gv)) =
             issued c @ [CallServerResourcesForGroupVersion gv,
                         CallServerResourcesForGroupVersion gv] \<and>
           fst (ServerResourcesForGroupVersion (snd (ServerResourcesForGroupVersion c gv)) gv) =
             Inr (cl_ServerResourcesForGroupVersion (cl c)
                    (issued c @ [CallServerResourcesForGroupVersion gv]) gv)))"
proof -
  have a: "ServerGroups c =
        ((r1, Some e1), c\<lparr>issued := issued c @ [CallServerGroups], servergroups := r1\<rparr>) \<and>
      (case r1 of
         Some g \<Rightarrow> ServerGroups (snd (ServerGroups c)) = ((Some g, None), snd (ServerGroups c))
       | None \<Rightarrow>
           issued (snd (ServerGroups (snd (ServerGroups c)))) =
             issued c @ [CallServerGroups, CallServerGroups] \<and>
           fst (ServerGroups (snd (ServerGroups c))) =
             cl_ServerGroups (cl c) (issued c @ [CallServerGroups]))"
    if h: "servergroups c = None" "cl_ServerGroups (cl c) (issued c) = (r1, Some e1)"
  proof -
    have 1: "ServerGroups c =
        ((r1, Some e1), c\<lparr>issued := issued c @ [CallServerGroups], servergroups := r1\<rparr>)"
      using h by (simp add: ServerGroups_miss)
    show ?thesis
    proof (cases r1)
      case None
      then show ?thesis using h by (simp add: 1 ServerGroups_miss)
    next
      case (Some g)
      then show ?thesis using h by (simp add: 1 ServerGroups_hit)
    qed
  qed
  have b: "ServerResourcesForGroupVersion c gv =
        (Inr (r2, Some e2),
         c\<lparr>issued := issued c @ [CallServerResourcesForGroupVersion gv],
           serverresources := Some (m(gv \<mapsto> r2))\<rparr>) \<and>
      (case r2 of
         Some l \<Rightarrow>
           ServerResourcesForGroupVersion (snd (ServerResourcesForGroupVersion c gv)) gv =
             (Inr (Some l, None), snd (ServerResourcesForGroupVersion c gv))
       | None \<Rightarrow>
           issued (snd (ServerResourcesForGroupVersion
                         (snd (ServerResourcesForGroupVersion c gv)) gv)) =
             issued c @ [CallServerResourcesForGroupVersion gv,
                         CallServerResourcesForGroupVersion gv] \<and>
           fst (ServerResourcesForGroupVersion (snd (ServerResourcesForGroupVersion c gv)) gv) =
             Inr (cl_ServerResourcesForGroupVersion (cl c)
                    (issued c @ [CallServerResourcesForGroupVersion gv]) gv))"
    if h: "serverresources c = Some m" "index (serverresources c) gv = None"
      "cl_ServerResourcesForGroupVersion (cl c) (issued c) gv = (r2, Some e2)"
  proof -
    have 1: "ServerResourcesForGroupVersion c gv =
        (Inr (r2, Some e2),
         c\<lparr>issued := issued c @ [CallServerResourcesForGroupVersion gv],
           serverresources := Some (m(gv \<mapsto> r2))\<rparr>)"
      using h ServerResources_miss [of c gv m] by simp
    show ?thesis
    proof (cases r2)
      case None
      then show ?thesis
        using ServerResources_miss [of "c\<lparr>issued := issued c @ [CallServerResourcesForGroupVersion gv],
           serverresources := Some (m(gv \<mapsto> r2))\<rparr>" gv "m(gv \<mapsto> r2)"]
        by (simp add: 1 index_upd)
    next
      case (Some l)
      then show ?thesis by (simp add: 1 ServerResources_hit index_upd)
    qed
  qed
  show ?thesis using a b by blast
qed

theorem failed_fetch_is_stored_witness:
  "ServerGroups (NewMemcachedDiscoveryClient down) =
     ((None, Some (ProviderError ''down'')),
      (NewMemcachedDiscoveryClient down)\<lparr>issued := [CallServerGroups], servergroups := None\<rparr>) \<and>
   fst (ServerResourcesForGroupVersion (NewMemcachedDiscoveryClient down) ''apps/v1'') =
     Inr (None, Some (ProviderError ''down'')) \<and>
   serverresources (snd (ServerResourcesForGroupVersion (NewMemcachedDiscoveryClient down)
     ''apps/v1'')) = Some (Map.empty(''apps/v1'' \<mapsto> None))"
proof -
  let ?c = "NewMemcachedDiscoveryClient down"
  have h: "servergroups ?c = None"
    "cl_ServerGroups (cl ?c) (issued ?c) = (None, Some (ProviderError ''down''))"
    "serverresources ?c = Some Map.empty" "index (serverresources ?c) ''apps/v1'' = None"
    "cl_ServerResourcesForGroupVersion (cl ?c) (issued ?c) ''apps/v1'' =
       (None, Some (ProviderError ''down''))"
    by (simp_all add: New_fields down_replies index_make_map) (simp add: make_map_def)
  show ?thesis
    using failed_fetch_is_stored [of ?c None "ProviderError ''down''" Map.empty "''apps/v1''"
        None "ProviderError ''down''"] h
    by (auto simp add: New_fields)
qed

section \<open>The two maps are allocated\<close>

lemma ServerGroups_maps:
  "serverresources (snd (ServerGroups c)) = serverresources c"
  "schemas (snd (ServerGroups c)) = schemas c"
  by (simp_all add: ServerGroups_def case_prod_beta Let_def split: option.split)

lemma ServerVersion_maps:
  "serverresources (snd (ServerVersion c)) = serverresources c"
  "schemas (snd (ServerVersion c)) = schemas c"
  by (simp_all add: ServerVersion_def case_prod_beta Let_def)

lemma OpenAPISchema_maps:
  "serverresources (snd (OpenAPISchema c)) = serverresources c"
  "schemas (snd (OpenAPISchema c)) = schemas c"
  by (simp_all add: OpenAPISchema_def case_prod_beta Let_def)

lemma SwaggerSchema_maps:
  "serverresources (snd (SwaggerSchema String c v)) = serverresources c"
  "schemas c \<noteq> None \<Longrightarrow> schemas (snd (SwaggerSchema String c v)) \<noteq> None"
  "schemas c \<noteq> None \<Longrightarrow> \<not> isl (fst (SwaggerSchema String c v))"
  by (auto simp add: SwaggerSchema_def case_prod_beta Let_def split: option.split)

lemma ServerResources_maps:
  "schemas (snd (ServerResourcesForGroupVersion c gv)) = schemas c"
  "serverresources c \<noteq> None \<Longrightarrow>
     serverresources (snd (ServerResourcesForGroupVersion c gv)) \<noteq> None"
  "serverresources c \<noteq> None \<Longrightarrow> \<not> isl (fst (ServerResourcesForGroupVersion c gv))"
  by (auto simp add: ServerResourcesForGroupVersion_def case_prod_beta Let_def
      split: option.split)

lemma selectVersions_maps:
  "serverresources c \<noteq> None \<Longrightarrow>
   fst (selectVersions g vs c s) \<noteq> Panics NilMapAssignment \<and>
   serverresources (snd (selectVersions g vs c s)) \<noteq> None \<and>
   schemas (snd (selectVersions g vs c s)) = schemas c"
proof (induction vs arbitrary: c s)
  case Nil
  then show ?case by simp
next
  case (Cons v vs)
  obtain r c1 where f: "ServerResourcesForGroupVersion c (GroupVersionForDiscovery.GroupVersion v) = (r, c1)"
    by (cases "ServerResourcesForGroupVersion c (GroupVersionForDiscovery.GroupVersion v)")
  have m: "serverresources c1 \<noteq> None" "schemas c1 = schemas c" "\<not> isl r"
    using ServerResources_maps [of c "GroupVersionForDiscovery.GroupVersion v"] f Cons.prems
    by simp_all
  show ?case
    using Cons.IH [OF m(1)] m
    by (auto simp add: f split: sum.split option.split prod.split)
qed

lemma selectGroups_maps:
  "serverresources c \<noteq> None \<Longrightarrow>
   fst (selectGroups gs c s) \<noteq> Panics NilMapAssignment \<and>
   serverresources (snd (selectGroups gs c s)) \<noteq> None \<and>
   schemas (snd (selectGroups gs c s)) = schemas c"
proof (induction gs arbitrary: c s)
  case Nil
  then show ?case by simp
next
  case (Cons g gs)
  obtain r c1 where f: "selectVersions g (Versions g) c s = (r, c1)"
    by (cases "selectVersions g (Versions g) c s")
  have m: "serverresources c1 \<noteq> None" "schemas c1 = schemas c" "r \<noteq> Panics NilMapAssignment"
    using selectVersions_maps [of c g "Versions g" s] f Cons.prems by simp_all
  show ?case
    using Cons.IH [OF m(1)] m
    by (auto simp add: f split: flow.split)
qed

lemma resourcesOfVersions_maps:
  "serverresources c \<noteq> None \<Longrightarrow>
   fst (resourcesOfVersions vs c rs) \<noteq> Panics NilMapAssignment \<and>
   serverresources (snd (resourcesOfVersions vs c rs)) \<noteq> None \<and>
   schemas (snd (resourcesOfVersions vs c rs)) = schemas c"
proof (induction vs arbitrary: c rs)
  case Nil
  then show ?case by simp
next
  case (Cons v vs)
  obtain r c1 where f: "ServerResourcesForGroupVersion c (GroupVersionForDiscovery.GroupVersion v) = (r, c1)"
    by (cases "ServerResourcesForGroupVersion c (GroupVersionForDiscovery.GroupVersion v)")
  have m: "serverresources c1 \<noteq> None" "schemas c1 = schemas c" "\<not> isl r"
    using ServerResources_maps [of c "GroupVersionForDiscovery.GroupVersion v"] f Cons.prems
    by simp_all
  show ?case
    using Cons.IH [OF m(1)] m
    by (auto simp add: f split: sum.split option.split prod.split)
qed

lemma resourcesOfGroups_maps:
  "serverresources c \<noteq> None \<Longrightarrow>
   fst (resourcesOfGroups gs c rs) \<noteq> Panics NilMapAssignment \<and>
   serverresources (snd (resourcesOfGroups gs c rs)) \<noteq> None \<and>
   schemas (snd (resourcesOfGroups gs c rs)) = schemas c"
proof (induction gs arbitrary: c rs)
  case Nil
  then show ?case by simp
next
  case (Cons g gs)
  obtain r c1 where f: "resourcesOfVersions (Versions g) c rs = (r, c1)"
    by (cases "resourcesOfVersions (Versions g) c rs")
  have m: "serverresources c1 \<noteq> None" "schemas c1 = schemas c" "r \<noteq> Panics NilMapAssignment"
    using resourcesOfVersions_maps [of c "Versions g" rs] f Cons.prems by simp_all
  show ?case
    using Cons.IH [OF m(1)] m
    by (auto simp add: f split: flow.split)
qed

lemma groupSelected_panic: "groupSelected ps s \<noteq> Inl NilMapAssignment"
  by (induction ps s rule: groupSelected.induct) (auto simp add: Let_def split: option.split)


lemma ServerPreferredResources_maps:
  assumes "serverresources c \<noteq> None"
  shows "fst (ServerPreferredResources ranged c) \<noteq> Inl NilMapAssignment \<and>
   serverresources (snd (ServerPreferredResources ranged c)) \<noteq> None \<and>
   schemas (snd (ServerPreferredResources ranged c)) = schemas c"
proof -
  obtain r e c1 where f: "ServerGroups c = ((r, e), c1)"
    by (cases "ServerGroups c") auto
  have m: "serverresources c1 \<noteq> None" "schemas c1 = schemas c"
    using ServerGroups_maps [of c] f assms by simp_all
  show ?thesis
  proof (cases "\<exists>gl. r = Some gl \<and> e = None")
    case False
    then show ?thesis
      using m by (auto simp add: ServerPreferredResources_def f split: option.split)
  next
    case True
    then obtain gl where g: "r = Some gl" "e = None" by auto
    obtain q c2 where h: "selectGroups (Groups gl) c1 no_selection = (q, c2)"
      by (cases "selectGroups (Groups gl) c1 no_selection")
    have n: "q \<noteq> Panics NilMapAssignment" "serverresources c2 \<noteq> None" "schemas c2 = schemas c1"
      using selectGroups_maps [OF m(1), of "Groups gl" no_selection] h by simp_all
    show ?thesis
      using n m groupSelected_panic
      by (auto simp add: ServerPreferredResources_def f g h split: flow.split sum.split)
  qed
qed

lemma ServerPreferredNamespacedResources_maps:
  assumes "serverresources c \<noteq> None"
  shows "fst (ServerPreferredNamespacedResources ranged c) \<noteq> Inl NilMapAssignment \<and>
   serverresources (snd (ServerPreferredNamespacedResources ranged c)) \<noteq> None \<and>
   schemas (snd (ServerPreferredNamespacedResources ranged c)) = schemas c"
proof -
  obtain r c1 where f: "ServerPreferredResources ranged c = (r, c1)"
    by (cases "ServerPreferredResources ranged c")
  show ?thesis
    using ServerPreferredResources_maps [OF assms, of ranged]
    by (auto simp add: ServerPreferredNamespacedResources_def f split: sum.split)
qed

lemma ServerResources_all_maps:
  assumes "serverresources c \<noteq> None"
  shows "fst (ServerResources c) \<noteq> Inl NilMapAssignment \<and>
   serverresources (snd (ServerResources c)) \<noteq> None \<and>
   schemas (snd (ServerResources c)) = schemas c"
proof -
  obtain r e c1 where f: "ServerGroups c = ((r, e), c1)"
    by (cases "ServerGroups c") auto
  have m: "serverresources c1 \<noteq> None" "schemas c1 = schemas c"
    using ServerGroups_maps [of c] f assms by simp_all
  show ?thesis
  proof (cases "\<exists>gl. r = Some gl \<and> e = None")
    case False
    then show ?thesis
      using m by (auto simp add: ServerResources_def f split: option.split)
  next
    case True
    then obtain gl where g: "r = Some gl" "e = None" by auto
    obtain q c2 where h: "resourcesOfGroups (Groups gl) c1 [] = (q, c2)"
      by (cases "resourcesOfGroups (Groups gl) c1 []")
    have n: "q \<noteq> Panics NilMapAssignment" "serverresources c2 \<noteq> None" "schemas c2 = schemas c1"
      using resourcesOfGroups_maps [OF m(1), of "Groups gl" "[]"] h by simp_all
    show ?thesis
      using n m by (auto simp add: ServerResources_def f g h split: flow.split)
  qed
qed

lemma resolver_maps:
  assumes "serverresources c \<noteq> None"
  shows "fst (serverResourceForGroupVersionKind String ServerResourcesForGroupVersion c gvk) \<noteq>
     Inl NilMapAssignment \<and>
   serverresources
     (snd (serverResourceForGroupVersionKind String ServerResourcesForGroupVersion c gvk)) \<noteq> None \<and>
   schemas (snd (serverResourceForGroupVersionKind String ServerResourcesForGroupVersion c gvk)) =
     schemas c"
proof -
  let ?k = "String (fst gvk, fst (snd gvk))"
  obtain r c1 where f: "ServerResourcesForGroupVersion c ?k = (r, c1)"
    by (cases "ServerResourcesForGroupVersion c ?k")
  have m: "serverresources c1 \<noteq> None" "schemas c1 = schemas c" "\<not> isl r"
    using ServerResources_maps [of c ?k] f assms by simp_all
  show ?thesis
    using m
    by (auto simp add: serverResourceForGroupVersionKind_def Let_def f
        split: sum.split option.split prod.split)
qed

lemma perform_maps:
  assumes "serverresources c \<noteq> None" "schemas c \<noteq> None"
  shows "fst (perform String x c) \<noteq> Some NilMapAssignment \<and>
     serverresources (snd (perform String x c)) \<noteq> None \<and>
     schemas (snd (perform String x c)) \<noteq> None"
proof (cases x)
  case DoInvalidate
  then show ?thesis by (simp add: Invalidate_fields make_map_def)
next
  case DoServerGroups
  then show ?thesis using assms by (simp add: ServerGroups_maps)
next
  case (DoServerResourcesForGroupVersion gv)
  then show ?thesis
    using assms ServerResources_maps [where c = c and gv = gv]
    by (auto simp add: panicOf_def split: sum.splits)
next
  case DoServerResources
  then show ?thesis
    using assms ServerResources_all_maps [of c]
    by (auto simp add: panicOf_def split: sum.splits)
next
  case (DoServerPreferredResources ranged)
  then show ?thesis
    using assms ServerPreferredResources_maps [of c ranged]
    by (auto simp add: panicOf_def split: sum.splits)
next
  case (DoServerPreferredNamespacedResources ranged)
  then show ?thesis
    using assms ServerPreferredNamespacedResources_maps [of c ranged]
    by (auto simp add: panicOf_def split: sum.splits)
next
  case DoServerVersion
  then show ?thesis using assms by (simp add: ServerVersion_maps)
next
  case (DoSwaggerSchema v)
  then show ?thesis
    using assms SwaggerSchema_maps [where c = c and String = String and v = v]
    by (auto simp add: panicOf_def split: sum.splits)
next
  case DoOpenAPISchema
  then show ?thesis using assms by (simp add: OpenAPISchema_maps)
next
  case (DoServerResourceForGroupVersionKind gvk)
  then show ?thesis
    using assms resolver_maps [of c String gvk]
    by (auto simp add: panicOf_def split: sum.splits)
qed

lemma run_maps:
  "serverresources c \<noteq> None \<Longrightarrow> schemas c \<noteq> None \<Longrightarrow>
   NilMapAssignment \<notin> set (fst (run String xs c)) \<and>
   serverresources (snd (run String xs c)) \<noteq> None \<and>
   schemas (snd (run String xs c)) \<noteq> None"
proof (induction xs arbitrary: c)
  case Nil
  then show ?case by simp
next
  case (Cons x xs)
  obtain p c1 where f: "perform String x c = (p, c1)"
    by (cases "perform String x c")
  have m: "p \<noteq> Some NilMapAssignment" "serverresources c1 \<noteq> None" "schemas c1 \<noteq> None"
    using perform_maps [OF Cons.prems, of String x] f by simp_all
  show ?case
    using Cons.IH [OF m(2) m(3)] m(1)
    by (auto simp add: f case_prod_beta split: option.split)
qed

text \<open>
  Claim C10. \<^verbatim>\<open>NewMemcachedDiscoveryClient\<close> runs \<^verbatim>\<open>Invalidate\<close>, which makes both maps,
  and no method sets either map to nil. So after any sequence of method calls on a
  client it returned (whatever the provider replies, and also after a panic of another
  kind that the caller recovered from), the map of resource lists and the map of schemas
  are not nil, and no call in the sequence panicked on an assignment into a nil map.
\<close>

theorem maps_are_never_nil:
  "NilMapAssignment \<notin> set (fst (run String xs (NewMemcachedDiscoveryClient d))) \<and>
   serverresources (snd (run String xs (NewMemcachedDiscoveryClient d))) \<noteq> None \<and>
   schemas (snd (run String xs (NewMemcachedDiscoveryClient d))) \<noteq> None"
  by (rule run_maps) (simp_all add: New_fields make_map_def)

section \<open>The resource of a kind\<close>

lemma resourceOfKind_none: "(resourceOfKind k rs = None) = (\<forall>x\<in>set rs. Kind x \<noteq> k)"
  by (induction rs) auto

lemma resourceOfKind_first:
  "\<forall>y\<in>set pre. Kind y \<noteq> k \<Longrightarrow> Kind x = k \<Longrightarrow> resourceOfKind k (pre @ x # post) = Some x"
  by (induction pre) auto

lemma resourceOfKind_some:
  "resourceOfKind k rs = Some x \<Longrightarrow>
   \<exists>pre post. rs = pre @ x # post \<and> Kind x = k \<and> (\<forall>y\<in>set pre. Kind y \<noteq> k)"
proof (induction rs)
  case Nil
  then show ?case by simp
next
  case (Cons r rs)
  show ?case
  proof (cases "Kind r = k")
    case True
    with Cons.prems have "r = x" by simp
    with True have "r # rs = [] @ x # rs \<and> Kind x = k \<and> (\<forall>y\<in>set []. Kind y \<noteq> k)" by simp
    then show ?thesis by blast
  next
    case False
    with Cons obtain pre post where
      p: "rs = pre @ x # post" "Kind x = k" "\<forall>y\<in>set pre. Kind y \<noteq> k" by auto
    with False have "r # rs = (r # pre) @ x # post \<and> Kind x = k \<and> (\<forall>y\<in>set (r # pre). Kind y \<noteq> k)"
      by simp
    then show ?thesis by blast
  qed
qed

text \<open>A fetch that returns neither a list nor an error is dereferenced: the Go
  runtime panics.\<close>

lemma resolver_nil_reply:
  "disco d (String (g, v)) = (Inr (None, None), d1) \<Longrightarrow>
   serverResourceForGroupVersionKind String disco d (g, v, k) = (Inl NilPointerDereference, d1)"
  by (simp add: serverResourceForGroupVersionKind_def Let_def)

text \<open>
  Claim C9. \<^verbatim>\<open>serverResourceForGroupVersionKind\<close> fetches the resource list of the
  object's group-version and returns the first resource of that list whose kind is the
  object's kind. Whenever the fetch returns a list or an error, it returns (it does not
  panic) and passes on the state the fetch left; it returns an error exactly when the
  fetch failed or no resource of the list has the kind; the error of a failed fetch
  carries the group-version and the fetch's error, the other one the
  group-version-kind; and it returns a resource exactly when it returns no error.
\<close>

theorem resolver_scans_for_kind:
  assumes "disco d (String (g, v)) = (Inr (resources, err), d1)"
    and "resources \<noteq> None \<or> err \<noteq> None"
  shows "\<exists>r e. serverResourceForGroupVersionKind String disco d (g, v, k) = (Inr (r, e), d1) \<and>
     (e \<noteq> None \<longleftrightarrow>
        err \<noteq> None \<or>
        (\<forall>x\<in>set (case resources of None \<Rightarrow> [] | Some rl \<Rightarrow> APIResources rl). Kind x \<noteq> k)) \<and>
     (r \<noteq> None \<longleftrightarrow> e = None) \<and>
     (\<forall>e'. err = Some e' \<longrightarrow> e = Some (UnableToFetch (g, v) e')) \<and>
     (err = None \<and> r = None \<longrightarrow> e = Some (UnableToHandle (g, v, k))) \<and>
     (\<forall>rl pre x post. err = None \<and> resources = Some rl \<and>
         APIResources rl = pre @ x # post \<and> Kind x = k \<and>
         (\<forall>y\<in>set pre. Kind y \<noteq> k) \<longrightarrow> r = Some x)"
proof (cases err)
  case (Some e')
  then show ?thesis
    using assms(1) by (simp add: serverResourceForGroupVersionKind_def Let_def split: option.split)
next
  case None
  with assms(2) obtain rl where rl: "resources = Some rl" by auto
  show ?thesis
  proof (cases "resourceOfKind k (APIResources rl)")
    case n: None
    then have "\<forall>x\<in>set (APIResources rl). Kind x \<noteq> k" by (simp add: resourceOfKind_none)
    then show ?thesis
      using assms(1) None rl n
      by (auto simp add: serverResourceForGroupVersionKind_def Let_def split: option.split)
  next
    case (Some x)
    from resourceOfKind_some [OF Some] have "\<exists>y\<in>set (APIResources rl). Kind y = k" by auto
    moreover have "x' = x" if "APIResources rl = pre @ x' # post" "Kind x' = k"
      "\<forall>y\<in>set pre. Kind y \<noteq> k" for pre x' post
      using resourceOfKind_first [OF that(3) that(2), of post] that(1) Some by simp
    ultimately show ?thesis
      using assms(1) None rl Some
      by (auto simp add: serverResourceForGroupVersionKind_def Let_def split: option.split)
  qed
qed

theorem resolver_scans_for_kind_witness:
  "fst (serverResourceForGroupVersionKind groupVersionString ServerResourcesForGroupVersion
          (NewMemcachedDiscoveryClient cluster) (''apps'', ''v1beta1'', ''StatefulSet'')) =
     Inr (Some (resource ''statefulsets'' ''StatefulSet'' True), None) \<and>
   fst (serverResourceForGroupVersionKind groupVersionString ServerResourcesForGroupVersion
          (NewMemcachedDiscoveryClient cluster) (''apps'', ''v1'', ''Pod'')) =
     Inr (None, Some (UnableToHandle (''apps'', ''v1'', ''Pod''))) \<and>
   fst (serverResourceForGroupVersionKind groupVersionString ServerResourcesForGroupVersion
          (NewMemcachedDiscoveryClient down) (''apps'', ''v1'', ''Deployment'')) =
     Inr (None, Some (UnableToFetch (''apps'', ''v1'') (ProviderError ''down'')))"
proof -
  let ?c = "NewMemcachedDiscoveryClient cluster"
  let ?d = "NewMemcachedDiscoveryClient down"
  let ?l = "\<lparr>APIResourceList.GroupVersion = ''apps/v1beta1'',
               APIResources = [resource ''deployments'' ''DeploymentBeta'' True,
                               resource ''deployments/scale'' ''Scale'' True,
                               resource ''statefulsets'' ''StatefulSet'' True]\<rparr>"
  let ?m = "\<lparr>APIResourceList.GroupVersion = ''apps/v1'',
               APIResources = [resource ''deployments'' ''Deployment'' True]\<rparr>"
  have a: "ServerResourcesForGroupVersion ?c (groupVersionString (''apps'', ''v1beta1'')) =
     (Inr (Some ?l, None), snd (ServerResourcesForGroupVersion ?c ''apps/v1beta1''))"
    by (simp add: New_ServerResources cluster_replies clusterResources_def groupVersionString_def)
  have b: "ServerResourcesForGroupVersion ?c (groupVersionString (''apps'', ''v1'')) =
     (Inr (Some ?m, None), snd (ServerResourcesForGroupVersion ?c ''apps/v1''))"
    by (simp add: New_ServerResources cluster_replies clusterResources_def groupVersionString_def)
  have c: "ServerResourcesForGroupVersion ?d (groupVersionString (''apps'', ''v1'')) =
     (Inr (None, Some (ProviderError ''down'')), snd (ServerResourcesForGroupVersion ?d ''apps/v1''))"
    by (simp add: New_ServerResources down_replies groupVersionString_def)
  have 1: "fst (serverResourceForGroupVersionKind groupVersionString ServerResourcesForGroupVersion
          ?c (''apps'', ''v1beta1'', ''StatefulSet'')) =
     Inr (Some (resource ''statefulsets'' ''StatefulSet'' True), None)"
  proof -
    from resolver_scans_for_kind [where disco = ServerResourcesForGroupVersion
        and String = groupVersionString and d = ?c and g = "''apps''" and v = "''v1beta1''"
        and k = "''StatefulSet''", OF a]
    obtain r e where h:
      "serverResourceForGroupVersionKind groupVersionString ServerResourcesForGroupVersion
          ?c (''apps'', ''v1beta1'', ''StatefulSet'') =
        (Inr (r, e), snd (ServerResourcesForGroupVersion ?c ''apps/v1beta1''))"
      "r \<noteq> None \<longleftrightarrow> e = None"
      "\<forall>pre x post.
         APIResources ?l = pre @ x # post \<and> Kind x = ''StatefulSet'' \<and>
         (\<forall>y\<in>set pre. Kind y \<noteq> ''StatefulSet'') \<longrightarrow> r = Some x"
      by auto
    from h(3) have "r = Some (resource ''statefulsets'' ''StatefulSet'' True)"
      by (elim allE [where x = "[resource ''deployments'' ''DeploymentBeta'' True,
                               resource ''deployments/scale'' ''Scale'' True]"]
            allE [where x = "resource ''statefulsets'' ''StatefulSet'' True"]
            allE [where x = "[]"]) (simp add: resource_def)
    with h(1,2) show ?thesis by simp
  qed
  have 2: "fst (serverResourceForGroupVersionKind groupVersionString ServerResourcesForGroupVersion
          ?c (''apps'', ''v1'', ''Pod'')) =
     Inr (None, Some (UnableToHandle (''apps'', ''v1'', ''Pod'')))"
    using resolver_scans_for_kind [where disco = ServerResourcesForGroupVersion
        and String = groupVersionString and d = ?c and g = "''apps''" and v = "''v1''"
        and k = "''Pod''", OF b]
    by (auto simp add: resource_def)
  have 3: "fst (serverResourceForGroupVersionKind groupVersionString ServerResourcesForGroupVersion
          ?d (''apps'', ''v1'', ''Deployment'')) =
     Inr (None, Some (UnableToFetch (''apps'', ''v1'') (ProviderError ''down'')))"
    using resolver_scans_for_kind [where disco = ServerResourcesForGroupVersion
        and String = groupVersionString and d = ?d and g = "''apps''" and v = "''v1''"
        and k = "''Deployment''", OF c]
    by auto
  show ?thesis using 1 2 3 by blast
qed

section \<open>The selection of preferred resources\<close>

lemma set_update_insert: "set (AList.update k v al) \<subseteq> insert (k, v) (set al)"
  by (induction al) auto

lemma selectResources_frame:
  "result (selectResources g v rs s) = result s"
  "gvApiResourceLists (selectResources g v rs s) = gvApiResourceLists s"
  by (induction rs arbitrary: s) (simp_all add: Let_def)

lemma selecting_record:
  assumes "selecting s" "gvApiResourceLists s (G, V) = Some p" "p < length (result s)"
    "CHR ''/'' \<notin> set (APIResource.Name r)"
  shows "selecting (s\<lparr>grVersions := (grVersions s)((G, APIResource.Name r) \<mapsto> V),
                  grApiResources := AList.update (G, APIResource.Name r) r (grApiResources s)\<rparr>)"
proof -
  let ?k = "(G, APIResource.Name r)"
  let ?s = "s\<lparr>grVersions := (grVersions s)(?k \<mapsto> V),
                  grApiResources := AList.update ?k r (grApiResources s)\<rparr>"
  have new: "listOf ?s ?k = Some p" using assms(2) by (simp add: listOf_def)
  have old: "listOf ?s k' = listOf s k'" if "k' \<noteq> ?k" for k'
    using that by (simp add: listOf_def)
  have "CHR ''/'' \<notin> set (snd k') \<and> APIResource.Name r' = snd k' \<and>
         (\<exists>q. listOf ?s k' = Some q \<and> q < length (result ?s))"
    if m: "(k', r') \<in> set (grApiResources ?s)" for k' r'
  proof (cases "k' = ?k")
    case True
    from m have "(k', r') = (?k, r) \<or> (k', r') \<in> set (grApiResources s)"
      using set_update_insert [of ?k r "grApiResources s"] by auto
    then have "APIResource.Name r' = snd k'"
      using assms(1) True by (auto simp add: selecting_def)
    then show ?thesis using True new assms(3,4) by simp
  next
    case False
    with m have "(k', r') \<in> set (grApiResources s)"
      using set_update_insert [of ?k r "grApiResources s"] by auto
    then show ?thesis using assms(1) old [OF False] by (auto simp add: selecting_def)
  qed
  moreover have "\<forall>l\<in>set (result ?s). APIResources l = []"
    using assms(1) by (simp add: selecting_def)
  moreover have "dom (grVersions ?s) = fst ` set (grApiResources ?s)"
    using assms(1) by (simp add: selecting_def dom_update)
  ultimately show ?thesis unfolding selecting_def by blast
qed

lemma selectResources_selecting:
  "selecting s \<Longrightarrow> gvApiResourceLists s (APIGroup.Name g, Version v) = Some p \<Longrightarrow>
   p < length (result s) \<Longrightarrow> selecting (selectResources g v rs s)"
proof (induction rs arbitrary: s)
  case Nil
  then show ?case by simp
next
  case (Cons r rs)
  show ?case
  proof (cases "CHR ''/'' \<in> set (APIResource.Name r) \<or>
      (map_of (grApiResources s) (APIGroup.Name g, APIResource.Name r) \<noteq> None \<and>
       Version v \<noteq> Version (PreferredVersion g))")
    case True
    then show ?thesis using Cons by (auto simp add: Let_def)
  next
    case False
    let ?s = "s\<lparr>grVersions := (grVersions s)((APIGroup.Name g, APIResource.Name r) \<mapsto> Version v),
       grApiResources := AList.update (APIGroup.Name g, APIResource.Name r) r (grApiResources s)\<rparr>"
    have 1: "selecting ?s"
      using selecting_record [OF Cons.prems] False by simp
    have 2: "selectResources g v (r # rs) s = selectResources g v rs ?s"
      using False by (auto simp add: Let_def)
    show ?thesis
      unfolding 2 using Cons.IH [OF 1] Cons.prems by simp
  qed
qed

lemma addEmptyList_selecting:
  assumes "selecting s"
  shows "selecting (addEmptyList g v s)"
proof -
  let ?s = "addEmptyList g v s"
  have l: "listOf ?s k = (if (fst k, case grVersions s k of None \<Rightarrow> [] | Some x \<Rightarrow> x) =
      (APIGroup.Name g, Version v) then Some (length (result s)) else listOf s k)" for k
    by (simp add: listOf_def addEmptyList_def)
  have f: "grApiResources ?s = grApiResources s" "length (result ?s) = Suc (length (result s))"
    by (simp_all add: addEmptyList_def)
  have "CHR ''/'' \<notin> set (snd k) \<and> APIResource.Name r = snd k \<and>
         (\<exists>q. listOf ?s k = Some q \<and> q < length (result ?s))"
    if m: "(k, r) \<in> set (grApiResources ?s)" for k r
  proof -
    from m assms obtain q where "CHR ''/'' \<notin> set (snd k)" "APIResource.Name r = snd k"
      "listOf s k = Some q" "q < length (result s)"
      by (auto simp add: selecting_def f)
    then show ?thesis by (auto simp add: l f)
  qed
  moreover have "\<forall>l\<in>set (result ?s). APIResources l = []"
    using assms by (auto simp add: selecting_def addEmptyList_def)
  moreover have "dom (grVersions ?s) = fst ` set (grApiResources ?s)"
    using assms by (simp add: selecting_def addEmptyList_def)
  ultimately show ?thesis unfolding selecting_def by blast
qed

lemma addEmptyList_fields:
  "gvApiResourceLists (addEmptyList g v s) (APIGroup.Name g, Version v) = Some (length (result s))"
  "result (addEmptyList g v s) = result s @
     [\<lparr>APIResourceList.GroupVersion = GroupVersionForDiscovery.GroupVersion v, APIResources = []\<rparr>]"
  by (simp_all add: addEmptyList_def)

lemma visit_selecting:
  assumes "selecting s"
  shows "selecting (selectResources g v rs (addEmptyList g v s))"
    and "map APIResourceList.GroupVersion (result (selectResources g v rs (addEmptyList g v s))) =
      map APIResourceList.GroupVersion (result s) @ [GroupVersionForDiscovery.GroupVersion v]"
proof -
  show "selecting (selectResources g v rs (addEmptyList g v s))"
    by (rule selectResources_selecting [OF addEmptyList_selecting [OF assms] addEmptyList_fields(1)])
      (simp add: addEmptyList_fields)
  show "map APIResourceList.GroupVersion (result (selectResources g v rs (addEmptyList g v s))) =
      map APIResourceList.GroupVersion (result s) @ [GroupVersionForDiscovery.GroupVersion v]"
    by (simp add: selectResources_frame addEmptyList_fields)
qed

lemma selectVersions_selecting:
  "selecting s \<Longrightarrow> selectVersions g vs c s = (Continues s', c') \<Longrightarrow>
   selecting s' \<and>
   map APIResourceList.GroupVersion (result s') =
     map APIResourceList.GroupVersion (result s) @ map GroupVersionForDiscovery.GroupVersion vs"
proof (induction vs arbitrary: c s)
  case Nil
  then show ?case by simp
next
  case (Cons v vs)
  obtain r c1 where f: "ServerResourcesForGroupVersion c (GroupVersionForDiscovery.GroupVersion v) = (r, c1)"
    by (cases "ServerResourcesForGroupVersion c (GroupVersionForDiscovery.GroupVersion v)")
  from Cons.prems(2) obtain l where l: "r = Inr (Some l, None)"
    by (auto simp add: f split: sum.splits option.splits)
  let ?s = "selectResources g v (APIResources l) (addEmptyList g v s)"
  have n: "selectVersions g vs c1 ?s = (Continues s', c')"
    using Cons.prems(2) by (simp add: f l)
  show ?case
    using Cons.IH [OF visit_selecting(1) [OF Cons.prems(1)] n]
      visit_selecting(2) [OF Cons.prems(1), of g v "APIResources l"]
    by simp
qed

lemma selectGroups_selecting:
  "selecting s \<Longrightarrow> selectGroups gs c s = (Continues s', c') \<Longrightarrow>
   selecting s' \<and>
   map APIResourceList.GroupVersion (result s') =
     map APIResourceList.GroupVersion (result s) @ visited gs"
proof (induction gs arbitrary: c s)
  case Nil
  then show ?case by (simp add: visited_def)
next
  case (Cons g gs)
  obtain q c1 where f: "selectVersions g (Versions g) c s = (q, c1)"
    by (cases "selectVersions g (Versions g) c s")
  from Cons.prems(2) obtain s1 where q: "q = Continues s1"
    by (auto simp add: f split: flow.splits)
  have n: "selectGroups gs c1 s1 = (Continues s', c')"
    using Cons.prems(2) by (simp add: f q)
  have m: "selecting s1" "map APIResourceList.GroupVersion (result s1) =
     map APIResourceList.GroupVersion (result s) @
     map GroupVersionForDiscovery.GroupVersion (Versions g)"
    using selectVersions_selecting [OF Cons.prems(1), of g "Versions g" c s1 c1] f q by simp_all
  show ?case
    using Cons.IH [OF m(1) n] m(2) by (simp add: visited_def)
qed

lemma selecting_nothing: "selecting no_selection"
  by (simp add: selecting_def no_selection_def)

lemma listOf_result [simp]: "listOf (s\<lparr>result := x\<rparr>) = listOf s"
  by (rule ext) (simp add: listOf_def)

lemma groupSelected_lists:
  "\<forall>(k, r)\<in>set ps. \<exists>p. listOf s k = Some p \<and> p < length (result s) \<Longrightarrow>
   \<exists>out. groupSelected ps s = Inr out \<and>
     map APIResourceList.GroupVersion out = map APIResourceList.GroupVersion (result s) \<and>
     (\<forall>i<length (result s). APIResources (out ! i) =
        APIResources (result s ! i) @ map snd (filter (\<lambda>(k, r). listOf s k = Some i) ps))"
proof (induction ps arbitrary: s)
  case Nil
  then show ?case by simp
next
  case (Cons a ps)
  obtain k r where a: "a = (k, r)" by (cases a)
  from Cons.prems obtain p where p: "listOf s k = Some p" "p < length (result s)"
    by (auto simp add: a)
  let ?l = "(result s ! p)\<lparr>APIResources := APIResources (result s ! p) @ [r]\<rparr>"
  let ?s = "s\<lparr>result := (result s)[p := ?l]\<rparr>"
  have step: "groupSelected (a # ps) s = groupSelected ps ?s"
    using p(1) by (simp add: a listOf_def Let_def)
  have pre: "\<forall>(k, r)\<in>set ps. \<exists>q. listOf ?s k = Some q \<and> q < length (result ?s)"
    using Cons.prems by auto
  from Cons.IH [OF pre] obtain out where out: "groupSelected ps ?s = Inr out"
    "map APIResourceList.GroupVersion out = map APIResourceList.GroupVersion (result ?s)"
    "\<forall>i<length (result ?s). APIResources (out ! i) =
        APIResources (result ?s ! i) @ map snd (filter (\<lambda>(k, r). listOf ?s k = Some i) ps)"
    by blast
  have gv: "map APIResourceList.GroupVersion (result ?s) =
      map APIResourceList.GroupVersion (result s)"
    using p(2) by (simp add: map_update list_update_same_conv)
  have "APIResources (out ! i) =
        APIResources (result s ! i) @ map snd (filter (\<lambda>(k, r). listOf s k = Some i) (a # ps))"
    if i: "i < length (result s)" for i
  proof (cases "i = p")
    case True
    then show ?thesis using out(3) i p by (simp add: a)
  next
    case False
    then show ?thesis using out(3) i p by (simp add: a)
  qed
  then show ?case using out(1,2) gv step by simp
qed

section \<open>The lists of preferred resources\<close>

lemma preferred_built:
  assumes G: "ServerGroups c = ((Some gl, None), c1)"
    and S: "selectGroups (Groups gl) c1 no_selection = (Continues s, c2)"
    and R: "mset (ranged (grApiResources s)) = mset (grApiResources s)"
  shows "\<exists>out. ServerPreferredResources ranged c = (Inr (out, None), c2) \<and>
     map APIResourceList.GroupVersion out = visited (Groups gl) \<and>
     (\<forall>i<length out. APIResources (out ! i) =
        map snd (filter (\<lambda>(k, r). listOf s k = Some i) (ranged (grApiResources s))))"
proof -
  have sel: "selecting s"
    "map APIResourceList.GroupVersion (result s) = visited (Groups gl)"
    using selectGroups_selecting [OF selecting_nothing S] by (simp_all add: no_selection_def)
  have e: "set (ranged (grApiResources s)) = set (grApiResources s)"
    using R by (rule mset_eq_setD)
  have pre: "\<forall>(k, r)\<in>set (ranged (grApiResources s)).
      \<exists>p. listOf s k = Some p \<and> p < length (result s)"
    using sel(1) unfolding e selecting_def by blast
  from groupSelected_lists [OF pre] obtain out where out:
    "groupSelected (ranged (grApiResources s)) s = Inr out"
    "map APIResourceList.GroupVersion out = map APIResourceList.GroupVersion (result s)"
    "\<forall>i<length (result s). APIResources (out ! i) =
        APIResources (result s ! i) @
        map snd (filter (\<lambda>(k, r). listOf s k = Some i) (ranged (grApiResources s)))"
    by blast
  have len: "length out = length (result s)"
    using out(2) by (rule map_eq_imp_length_eq)
  have empty: "APIResources (result s ! i) = []" if "i < length (result s)" for i
    using sel(1) that by (simp add: selecting_def)
  have "ServerPreferredResources ranged c = (Inr (out, None), c2)"
    by (simp add: ServerPreferredResources_def G S out(1))
  then show ?thesis using out(2,3) sel(2) len empty by auto
qed

lemma preferred_cases:
  assumes "fst (ServerPreferredResources ranged c) = Inr (out, err)"
  shows "out = [] \<or>
    (\<exists>gl c1 s c2. ServerGroups c = ((Some gl, None), c1) \<and>
       selectGroups (Groups gl) c1 no_selection = (Continues s, c2) \<and>
       ServerPreferredResources ranged c = (Inr (out, None), c2))"
proof -
  obtain r e c1 where f: "ServerGroups c = ((r, e), c1)"
    by (cases "ServerGroups c") auto
  show ?thesis
  proof (cases "\<exists>gl. r = Some gl \<and> e = None")
    case False
    then show ?thesis
      using assms by (auto simp add: ServerPreferredResources_def f split: option.splits)
  next
    case True
    then obtain gl where g: "r = Some gl" "e = None" by auto
    obtain q c2 where h: "selectGroups (Groups gl) c1 no_selection = (q, c2)"
      by (cases "selectGroups (Groups gl) c1 no_selection")
    show ?thesis
    proof (cases q)
      case (Continues s)
      then show ?thesis
        using assms by (auto simp add: ServerPreferredResources_def f g h split: sum.splits)
    qed (use assms in \<open>auto simp add: ServerPreferredResources_def f g h\<close>)
  qed
qed

text \<open>
  Claim C5. A resource whose name contains a slash is left out of the selection: when
  the first loop of \<^verbatim>\<open>ServerPreferredResources\<close> completes, no key of \<open>grApiResources\<close>
  and no key of \<open>grVersions\<close> has a slash in its resource name; and whatever lists the
  method returns, in whatever order the runtime ranges over the map, no resource in them
  has a slash in its name.
\<close>

theorem subresources_are_not_selected:
  "(selectGroups gs c no_selection = (Continues s, c') \<longrightarrow>
      (\<forall>k\<in>fst ` set (grApiResources s). CHR ''/'' \<notin> set (snd k)) \<and>
      (\<forall>k\<in>dom (grVersions s). CHR ''/'' \<notin> set (snd k))) \<and>
   ((\<forall>xs. mset (ranged xs) = mset xs) \<and>
    fst (ServerPreferredResources ranged c0) = Inr (out, err) \<longrightarrow>
      (\<forall>l\<in>set out. \<forall>r\<in>set (APIResources l). CHR ''/'' \<notin> set (APIResource.Name r)))"
proof -
  have a: "(\<forall>k\<in>fst ` set (grApiResources s). CHR ''/'' \<notin> set (snd k)) \<and>
      (\<forall>k\<in>dom (grVersions s). CHR ''/'' \<notin> set (snd k))"
    if "selectGroups gs c no_selection = (Continues s, c')"
  proof -
    have "selecting s"
      using selectGroups_selecting [OF selecting_nothing that] by simp
    then show ?thesis unfolding selecting_def by fastforce
  qed
  have b: "CHR ''/'' \<notin> set (APIResource.Name r)"
    if R: "\<forall>xs. mset (ranged xs) = mset xs"
      and o: "fst (ServerPreferredResources ranged c0) = Inr (out, err)"
      and l: "l \<in> set out" and r: "r \<in> set (APIResources l)" for l r
  proof -
    from preferred_cases [OF o] l obtain gl c1 s2 c2 where
      G: "ServerGroups c0 = ((Some gl, None), c1)" and
      S: "selectGroups (Groups gl) c1 no_selection = (Continues s2, c2)" and
      P: "ServerPreferredResources ranged c0 = (Inr (out, None), c2)"
      by auto
    from R have R': "mset (ranged (grApiResources s2)) = mset (grApiResources s2)" by simp
    from preferred_built [where ranged = ranged, OF G S R'] P have
      c: "\<forall>i<length out. APIResources (out ! i) =
        map snd (filter (\<lambda>(k, r). listOf s2 k = Some i) (ranged (grApiResources s2)))"
      by simp
    from l obtain i where i: "i < length out" "l = out ! i"
      by (auto simp add: in_set_conv_nth)
    with c r have "r \<in> snd ` set (ranged (grApiResources s2))" by auto
    then obtain k where "(k, r) \<in> set (grApiResources s2)"
      using mset_eq_setD [OF R'] by auto
    moreover have "selecting s2"
      using selectGroups_selecting [OF selecting_nothing S] by simp
    ultimately show ?thesis unfolding selecting_def by fastforce
  qed
  show ?thesis using a b by blast
qed

lemma cluster_groups:
  "ServerGroups (NewMemcachedDiscoveryClient cluster) =
     ((Some \<lparr>Groups = [appsGroup, coreGroup]\<rparr>, None),
      snd (ServerGroups (NewMemcachedDiscoveryClient cluster)))"
  by (simp add: New_ServerGroups cluster_replies)

lemma cluster_selected:
  "selectGroups [appsGroup, coreGroup] (snd (ServerGroups (NewMemcachedDiscoveryClient cluster)))
     no_selection =
   (Continues clusterSelection,
    snd (selectGroups [appsGroup, coreGroup]
          (snd (ServerGroups (NewMemcachedDiscoveryClient cluster))) no_selection))"
proof -
  have "fst (selectGroups [appsGroup, coreGroup]
      (snd (ServerGroups (NewMemcachedDiscoveryClient cluster))) no_selection) =
    Continues clusterSelection"
    by (simp add: ServerGroups_def ServerResourcesForGroupVersion_def
        NewMemcachedDiscoveryClient_def Invalidate_def zero_client_def make_map_def index_def
        cluster_def clusterResources_def appsGroup_def coreGroup_def discoveryVersion_def
        resource_def no_selection_def addEmptyList_def Let_def clusterSelection_def
        numeral_2_eq_2)
  then show ?thesis by (simp only: prod_eq_iff fst_conv snd_conv simp_thms)
qed

lemma cluster_selected_groups:
  "selectGroups (Groups \<lparr>Groups = [appsGroup, coreGroup]\<rparr>)
     (snd (ServerGroups (NewMemcachedDiscoveryClient cluster))) no_selection =
   (Continues clusterSelection,
    snd (selectGroups [appsGroup, coreGroup]
          (snd (ServerGroups (NewMemcachedDiscoveryClient cluster))) no_selection))"
  using cluster_selected by (simp only: APIGroupList.simps)

lemma cluster_listOf:
  "listOf clusterSelection (''apps'', ''deployments'') = Some 1"
  "listOf clusterSelection (''apps'', ''statefulsets'') = Some 0"
  "listOf clusterSelection ([], ''pods'') = Some 2"
  "listOf clusterSelection ([], ''nodes'') = Some 2"
  by (simp_all add: listOf_def clusterSelection_def)

lemma cluster_pairs:
  "grApiResources clusterSelection =
     [((''apps'', ''deployments''), resource ''deployments'' ''Deployment'' True),
      ((''apps'', ''statefulsets''), resource ''statefulsets'' ''StatefulSet'' True),
      (([], ''pods''), resource ''pods'' ''Pod'' True),
      (([], ''nodes''), resource ''nodes'' ''Node'' False)]"
  by (simp add: clusterSelection_def)

theorem subresources_are_not_selected_witness:
  "(''apps'', ''deployments/scale'') \<notin> fst ` set (grApiResources clusterSelection) \<and>
   ([], ''pods/status'') \<notin> dom (grVersions clusterSelection) \<and>
   (\<exists>out. fst (ServerPreferredResources rev (NewMemcachedDiscoveryClient cluster)) =
       Inr (out, None) \<and>
     list_all (\<lambda>l. list_all (\<lambda>r. CHR ''/'' \<notin> set (APIResource.Name r)) (APIResources l)) out)"
proof -
  have R: "\<forall>xs :: (GroupResource \<times> APIResource) list. mset (rev xs) = mset xs" by simp
  have R': "mset (rev (grApiResources clusterSelection)) = mset (grApiResources clusterSelection)"
    by simp
  from preferred_built [where ranged = rev, OF cluster_groups cluster_selected_groups R']
  obtain out where out:
    "fst (ServerPreferredResources rev (NewMemcachedDiscoveryClient cluster)) = Inr (out, None)"
    by (auto simp only: fst_conv)
  note t = subresources_are_not_selected [of "[appsGroup, coreGroup]"
      "snd (ServerGroups (NewMemcachedDiscoveryClient cluster))" clusterSelection
      "snd (selectGroups [appsGroup, coreGroup]
          (snd (ServerGroups (NewMemcachedDiscoveryClient cluster))) no_selection)"
      rev "NewMemcachedDiscoveryClient cluster" out None]
  from t cluster_selected have
    a: "\<forall>k\<in>fst ` set (grApiResources clusterSelection). CHR ''/'' \<notin> set (snd k)" and
    b: "\<forall>k\<in>dom (grVersions clusterSelection). CHR ''/'' \<notin> set (snd k)"
    by blast+
  from t R out have
    c: "\<forall>l\<in>set out. \<forall>r\<in>set (APIResources l). CHR ''/'' \<notin> set (APIResource.Name r)"
    by blast
  have 1: "(''apps'', ''deployments/scale'') \<notin> fst ` set (grApiResources clusterSelection)"
  proof
    assume "(''apps'', ''deployments/scale'') \<in> fst ` set (grApiResources clusterSelection)"
    with a have "CHR ''/'' \<notin> set (snd (''apps'', ''deployments/scale''))" by blast
    then show False by simp
  qed
  have 2: "([], ''pods/status'') \<notin> dom (grVersions clusterSelection)"
  proof
    assume "([], ''pods/status'') \<in> dom (grVersions clusterSelection)"
    with b have "CHR ''/'' \<notin> set (snd ([] :: string, ''pods/status''))" by blast
    then show False by simp
  qed
  from c have 3: "list_all (\<lambda>l. list_all (\<lambda>r. CHR ''/'' \<notin> set (APIResource.Name r)) (APIResources l)) out"
    by (simp add: list_all_iff)
  show ?thesis using 1 2 3 out by blast
qed

section \<open>Which version is selected\<close>

lemma selectResources_keeps_version:
  "grVersions s k = Some (Version v) \<Longrightarrow>
   grVersions (selectResources g v rs s) k = Some (Version v)"
  by (induction rs arbitrary: s) (simp_all add: Let_def)

lemma selectResources_other_keys:
  "\<forall>r\<in>set rs. k \<noteq> (APIGroup.Name g, APIResource.Name r) \<Longrightarrow>
   grVersions (selectResources g v rs s) k = grVersions s k \<and>
   map_of (grApiResources (selectResources g v rs s)) k = map_of (grApiResources s) k"
  by (induction rs arbitrary: s) (simp_all add: Let_def update_conv')

lemma selectResources_not_preferred:
  "map_of (grApiResources s) k \<noteq> None \<Longrightarrow> Version v \<noteq> Version (PreferredVersion g) \<Longrightarrow>
   grVersions (selectResources g v rs s) k = grVersions s k \<and>
   map_of (grApiResources (selectResources g v rs s)) k = map_of (grApiResources s) k"
proof (induction rs arbitrary: s)
  case Nil
  then show ?case by simp
next
  case (Cons x xs)
  let ?kx = "(APIGroup.Name g, APIResource.Name x)"
  let ?s = "s\<lparr>grVersions := (grVersions s)(?kx \<mapsto> Version v),
              grApiResources := AList.update ?kx x (grApiResources s)\<rparr>"
  show ?case
  proof (cases "CHR ''/'' \<in> set (APIResource.Name x) \<or> map_of (grApiResources s) ?kx \<noteq> None")
    case True
    then have e: "selectResources g v (x # xs) s = selectResources g v xs s"
      using Cons.prems(2) by (auto simp add: Let_def)
    show ?thesis unfolding e using Cons.IH [OF Cons.prems] by simp
  next
    case False
    then have e: "selectResources g v (x # xs) s = selectResources g v xs ?s"
      by (auto simp add: Let_def)
    from False Cons.prems(1) have ne: "k \<noteq> ?kx" by auto
    then have "map_of (grApiResources ?s) k \<noteq> None"
      using Cons.prems(1) by (simp add: update_conv')
    from Cons.IH [OF this Cons.prems(2)] ne show ?thesis
      unfolding e by (simp add: update_conv')
  qed
qed

lemma selectResources_records:
  "r \<in> set rs \<Longrightarrow> CHR ''/'' \<notin> set (APIResource.Name r) \<Longrightarrow>
   map_of (grApiResources s) (APIGroup.Name g, APIResource.Name r) = None \<or>
     Version v = Version (PreferredVersion g) \<Longrightarrow>
   grVersions (selectResources g v rs s) (APIGroup.Name g, APIResource.Name r) = Some (Version v)"
proof (induction rs arbitrary: s)
  case Nil
  then show ?case by simp
next
  case (Cons x xs)
  let ?k = "(APIGroup.Name g, APIResource.Name r)"
  let ?kx = "(APIGroup.Name g, APIResource.Name x)"
  let ?s = "s\<lparr>grVersions := (grVersions s)(?kx \<mapsto> Version v),
              grApiResources := AList.update ?kx x (grApiResources s)\<rparr>"
  show ?case
  proof (cases "APIResource.Name x = APIResource.Name r")
    case True
    then have e: "selectResources g v (x # xs) s = selectResources g v xs ?s"
      using Cons.prems(2,3) by (auto simp add: Let_def)
    have "grVersions ?s ?k = Some (Version v)" using True by simp
    then show ?thesis
      unfolding e by (rule selectResources_keeps_version)
  next
    case False
    with Cons.prems(1) have m: "r \<in> set xs" by auto
    show ?thesis
    proof (cases "selectResources g v (x # xs) s = selectResources g v xs s")
      case e: True
      show ?thesis unfolding e using Cons.IH [OF m Cons.prems(2,3)] by simp
    next
      case n: False
      then have e: "selectResources g v (x # xs) s = selectResources g v xs ?s"
        by (auto simp add: Let_def split: if_splits)
      have "map_of (grApiResources ?s) ?k = None \<or> Version v = Version (PreferredVersion g)"
        using Cons.prems(3) False by (auto simp add: update_conv')
      from Cons.IH [OF m Cons.prems(2) this] show ?thesis unfolding e by simp
    qed
  qed
qed

lemma visit_version:
  assumes "CHR ''/'' \<notin> set n"
  shows "grVersions (selectResources g v rs (addEmptyList g v s)) (APIGroup.Name g, n) =
     (if n \<in> APIResource.Name ` set rs \<and>
         (map_of (grApiResources s) (APIGroup.Name g, n) = None \<or>
          Version v = Version (PreferredVersion g))
      then Some (Version v) else grVersions s (APIGroup.Name g, n))"
proof -
  let ?a = "addEmptyList g v s"
  have a: "grVersions ?a = grVersions s" "grApiResources ?a = grApiResources s"
    by (simp_all add: addEmptyList_def)
  show ?thesis
  proof (cases "n \<in> APIResource.Name ` set rs")
    case False
    then have "\<forall>r\<in>set rs. (APIGroup.Name g, n) \<noteq> (APIGroup.Name g, APIResource.Name r)"
      by auto
    from selectResources_other_keys [OF this] False show ?thesis by (simp add: a)
  next
    case True
    then obtain r where r: "r \<in> set rs" "APIResource.Name r = n" by auto
    show ?thesis
    proof (cases "map_of (grApiResources s) (APIGroup.Name g, n) = None \<or>
          Version v = Version (PreferredVersion g)")
      case c: True
      have "grVersions (selectResources g v rs ?a) (APIGroup.Name g, APIResource.Name r) =
          Some (Version v)"
        by (rule selectResources_records [OF r(1)]) (use assms r(2) c a in auto)
      then show ?thesis using True c r(2) by simp
    next
      case c: False
      then have "map_of (grApiResources ?a) (APIGroup.Name g, n) \<noteq> None"
        "Version v \<noteq> Version (PreferredVersion g)"
        by (simp_all add: a)
      from selectResources_not_preferred [OF this, of rs] c show ?thesis by (auto simp add: a)
    qed
  qed
qed

lemma cluster_deployments:
  assumes R: "\<forall>xs. mset (ranged xs) = mset xs"
  shows "\<exists>out. fst (ServerPreferredResources ranged (NewMemcachedDiscoveryClient cluster)) =
       Inr (out, None) \<and>
     map APIResourceList.GroupVersion out = [''apps/v1beta1'', ''apps/v1'', ''v1''] \<and>
     APIResources (out ! 1) = [resource ''deployments'' ''Deployment'' True] \<and>
     (\<forall>i<length out. i \<noteq> 1 \<longrightarrow>
        ''deployments'' \<notin> APIResource.Name ` set (APIResources (out ! i)))"
proof -
  let ?al = "grApiResources clusterSelection"
  from R have R': "mset (ranged ?al) = mset ?al" by simp
  from preferred_built [where ranged = ranged, OF cluster_groups cluster_selected_groups R']
  obtain out where out:
    "fst (ServerPreferredResources ranged (NewMemcachedDiscoveryClient cluster)) = Inr (out, None)"
    "map APIResourceList.GroupVersion out = visited (Groups \<lparr>Groups = [appsGroup, coreGroup]\<rparr>)"
    "\<forall>i<length out. APIResources (out ! i) =
        map snd (filter (\<lambda>(k, r). listOf clusterSelection k = Some i) (ranged ?al))"
    by (auto simp only: fst_conv)
  have v: "visited (Groups \<lparr>Groups = [appsGroup, coreGroup]\<rparr>) =
      [''apps/v1beta1'', ''apps/v1'', ''v1'']"
    by (simp add: visited_def appsGroup_def coreGroup_def discoveryVersion_def)
  have len: "length out = 3"
    using out(2) v map_eq_imp_length_eq [of APIResourceList.GroupVersion out id
        "[''apps/v1beta1'', ''apps/v1'', ''v1'']"] by simp
  have "mset (filter (\<lambda>(k, r). listOf clusterSelection k = Some 1) (ranged ?al)) =
      {#((''apps'', ''deployments''), resource ''deployments'' ''Deployment'' True)#}"
    unfolding mset_filter R' by (simp add: cluster_pairs cluster_listOf)
  then have "filter (\<lambda>(k, r). listOf clusterSelection k = Some 1) (ranged ?al) =
      [((''apps'', ''deployments''), resource ''deployments'' ''Deployment'' True)]"
    by (simp only: mset_single_iff)
  then have one: "APIResources (out ! 1) = [resource ''deployments'' ''Deployment'' True]"
    using out(3) len by simp
  have others: "''deployments'' \<notin> APIResource.Name ` set (APIResources (out ! i))"
    if i: "i < length out" "i \<noteq> 1" for i
  proof
    assume "''deployments'' \<in> APIResource.Name ` set (APIResources (out ! i))"
    then obtain k r where m: "(k, r) \<in> set (ranged ?al)" "listOf clusterSelection k = Some i"
      "APIResource.Name r = ''deployments''"
      using out(3) i(1) by auto
    from m(1) have "(k, r) \<in> set ?al" using mset_eq_setD [OF R'] by simp
    with m(2,3) i(2) show False
      by (auto simp add: cluster_pairs cluster_listOf resource_def)
  qed
  show ?thesis using out(1,2) v one others by auto
qed


section \<open>The namespaced resources\<close>

lemma FilteredBy_groupVersions:
  "map APIResourceList.GroupVersion (FilteredBy p rls) = map APIResourceList.GroupVersion rls"
  by (simp add: FilteredBy_def)

lemma FilteredBy_count: "resourceCount gv (FilteredBy p rls) \<le> resourceCount gv rls"
proof (induction rls)
  case Nil
  then show ?case by (simp add: FilteredBy_def resourceCount_def)
next
  case (Cons rl rls)
  then show ?case
    by (auto simp add: FilteredBy_def resourceCount_def intro!: add_mono)
qed

lemma FilteredBy_accepted:
  "l \<in> set (FilteredBy p rls) \<Longrightarrow> r \<in> set (APIResources l) \<Longrightarrow>
   p (APIResourceList.GroupVersion l) r"
  by (auto simp add: FilteredBy_def)

lemma resourceCount_cong:
  "map APIResourceList.GroupVersion xs = map APIResourceList.GroupVersion ys \<Longrightarrow>
   \<forall>i<length xs. length (APIResources (xs ! i)) = length (APIResources (ys ! i)) \<Longrightarrow>
   resourceCount gv xs = resourceCount gv ys"
proof (induction xs arbitrary: ys)
  case Nil
  then show ?case by (simp add: resourceCount_def)
next
  case (Cons x xs)
  from Cons.prems(1) obtain y ys' where ys: "ys = y # ys'" by (cases ys) auto
  have h: "APIResourceList.GroupVersion x = APIResourceList.GroupVersion y"
    "map APIResourceList.GroupVersion xs = map APIResourceList.GroupVersion ys'"
    using Cons.prems(1) by (simp_all add: ys)
  have l: "length (APIResources x) = length (APIResources y)"
    using Cons.prems(2) [rule_format, of 0] by (simp add: ys)
  have t: "\<forall>i<length xs. length (APIResources (xs ! i)) = length (APIResources (ys' ! i))"
    using Cons.prems(2) by (auto simp add: ys)
  from Cons.IH [OF h(2) t] h(1) l show ?case
    by (simp add: resourceCount_def ys)
qed

lemma preferred_order:
  assumes R1: "\<forall>xs. mset (ranged1 xs) = mset xs" and R2: "\<forall>xs. mset (ranged2 xs) = mset xs"
  shows "case ServerPreferredResources ranged2 c of
     (Inl p, c1) \<Rightarrow> ServerPreferredResources ranged1 c = (Inl p, c1)
   | (Inr (all, err), c1) \<Rightarrow>
       (\<exists>all1. ServerPreferredResources ranged1 c = (Inr (all1, err), c1) \<and>
          (\<forall>gv. resourceCount gv all1 = resourceCount gv all))"
proof -
  obtain r e c1 where f: "ServerGroups c = ((r, e), c1)"
    by (cases "ServerGroups c") auto
  show ?thesis
  proof (cases "\<exists>gl. r = Some gl \<and> e = None")
    case False
    then show ?thesis
      by (auto simp add: ServerPreferredResources_def f split: option.splits)
  next
    case True
    then obtain gl where g: "r = Some gl" "e = None" by auto
    obtain q c2 where h: "selectGroups (Groups gl) c1 no_selection = (q, c2)"
      by (cases "selectGroups (Groups gl) c1 no_selection")
    show ?thesis
    proof (cases q)
      case (Continues s)
      let ?al = "grApiResources s"
      have G: "ServerGroups c = ((Some gl, None), c1)" using f g by simp
      have S: "selectGroups (Groups gl) c1 no_selection = (Continues s, c2)"
        using h Continues by simp
      from R1 have P1: "mset (ranged1 ?al) = mset ?al" by simp
      from R2 have P2: "mset (ranged2 ?al) = mset ?al" by simp
      from preferred_built [where ranged = ranged1, OF G S P1] obtain o1 where o1:
        "ServerPreferredResources ranged1 c = (Inr (o1, None), c2)"
        "map APIResourceList.GroupVersion o1 = visited (Groups gl)"
        "\<forall>i<length o1. APIResources (o1 ! i) =
           map snd (filter (\<lambda>(k, r). listOf s k = Some i) (ranged1 ?al))"
        by blast
      from preferred_built [where ranged = ranged2, OF G S P2] obtain o2 where o2:
        "ServerPreferredResources ranged2 c = (Inr (o2, None), c2)"
        "map APIResourceList.GroupVersion o2 = visited (Groups gl)"
        "\<forall>i<length o2. APIResources (o2 ! i) =
           map snd (filter (\<lambda>(k, r). listOf s k = Some i) (ranged2 ?al))"
        by blast
      have len: "length o1 = length o2"
        using o1(2) o2(2) map_eq_imp_length_eq [of APIResourceList.GroupVersion o1
            APIResourceList.GroupVersion o2] by simp
      have "length (APIResources (o1 ! i)) = length (APIResources (o2 ! i))"
        if i: "i < length o1" for i
      proof -
        have "length (filter (\<lambda>(k, r). listOf s k = Some i) (ranged1 ?al)) =
            size (filter_mset (\<lambda>(k, r). listOf s k = Some i) (mset (ranged1 ?al)))"
          by (simp only: mset_filter [symmetric] size_mset)
        also have "\<dots> = size (filter_mset (\<lambda>(k, r). listOf s k = Some i) (mset (ranged2 ?al)))"
          by (simp only: P1 P2)
        also have "\<dots> = length (filter (\<lambda>(k, r). listOf s k = Some i) (ranged2 ?al))"
          by (simp only: mset_filter [symmetric] size_mset)
        finally show ?thesis using o1(3) o2(3) i len by simp
      qed
      then have "resourceCount gv o1 = resourceCount gv o2" for gv
        using resourceCount_cong [of o1 o2 gv] o1(2) o2(2) by simp
      then show ?thesis by (simp add: o1(1) o2(1))
    qed (simp_all add: ServerPreferredResources_def f g h)
  qed
qed

lemma cluster_preferred_declared:
  "fst (ServerPreferredResources (\<lambda>xs. xs) (NewMemcachedDiscoveryClient cluster)) =
     Inr ([\<lparr>APIResourceList.GroupVersion = ''apps/v1beta1'',
             APIResources = [resource ''statefulsets'' ''StatefulSet'' True]\<rparr>,
           \<lparr>APIResourceList.GroupVersion = ''apps/v1'',
             APIResources = [resource ''deployments'' ''Deployment'' True]\<rparr>,
           \<lparr>APIResourceList.GroupVersion = ''v1'',
             APIResources = [resource ''pods'' ''Pod'' True, resource ''nodes'' ''Node'' False]\<rparr>],
          None)"
proof -
  have g: "groupSelected (grApiResources clusterSelection) clusterSelection =
     Inr [\<lparr>APIResourceList.GroupVersion = ''apps/v1beta1'',
             APIResources = [resource ''statefulsets'' ''StatefulSet'' True]\<rparr>,
           \<lparr>APIResourceList.GroupVersion = ''apps/v1'',
             APIResources = [resource ''deployments'' ''Deployment'' True]\<rparr>,
           \<lparr>APIResourceList.GroupVersion = ''v1'',
             APIResources = [resource ''pods'' ''Pod'' True, resource ''nodes'' ''Node'' False]\<rparr>]"
    by (simp add: clusterSelection_def Let_def)
  have "ServerPreferredResources (\<lambda>xs. xs) (NewMemcachedDiscoveryClient cluster) =
     (case groupSelected (grApiResources clusterSelection) clusterSelection of
        Inl p \<Rightarrow> (Inl p, snd (selectGroups [appsGroup, coreGroup]
          (snd (ServerGroups (NewMemcachedDiscoveryClient cluster))) no_selection))
      | Inr res \<Rightarrow> (Inr (res, None), snd (selectGroups [appsGroup, coreGroup]
          (snd (ServerGroups (NewMemcachedDiscoveryClient cluster))) no_selection)))"
    unfolding ServerPreferredResources_def
    by (subst cluster_groups) (simp only: prod.case option.case cluster_selected_groups flow.case)
  then show ?thesis unfolding g by simp
qed

text \<open>
  Claim C7. Take \<^verbatim>\<open>ServerPreferredNamespacedResources\<close> and
  \<^verbatim>\<open>ServerPreferredResources\<close> on the same client, each with its own order of ranging over
  the map of selected resources. The first panics where the second does; otherwise it
  returns with the same error and the same client state, for every group-version its lists
  hold at most as many resources as those of the second, and every resource in them is
  namespaced. The filter \<^verbatim>\<open>discovery.FilteredBy\<close> is the one the spec describes.
\<close>

theorem namespaced_resources_are_fewer:
  assumes "\<forall>xs. mset (ranged1 xs) = mset xs" and "\<forall>xs. mset (ranged2 xs) = mset xs"
  shows "case ServerPreferredResources ranged2 c of
     (Inl p, c1) \<Rightarrow> ServerPreferredNamespacedResources ranged1 c = (Inl p, c1)
   | (Inr (all, err), c1) \<Rightarrow>
       (\<exists>ns. ServerPreferredNamespacedResources ranged1 c = (Inr (ns, err), c1) \<and>
          (\<forall>gv. resourceCount gv ns \<le> resourceCount gv all) \<and>
          (\<forall>l\<in>set ns. \<forall>r\<in>set (APIResources l). Namespaced r))"
proof -
  obtain x c1 where f: "ServerPreferredResources ranged2 c = (x, c1)"
    by (cases "ServerPreferredResources ranged2 c")
  note o = preferred_order [OF assms, of c]
  show ?thesis
  proof (cases x)
    case (Inl p)
    then have "ServerPreferredResources ranged1 c = (Inl p, c1)"
      using o by (simp add: f)
    then show ?thesis by (simp add: f Inl ServerPreferredNamespacedResources_def)
  next
    case (Inr y)
    obtain all err where y: "y = (all, err)" by (cases y)
    from o obtain all1 where a:
      "ServerPreferredResources ranged1 c = (Inr (all1, err), c1)"
      "\<forall>gv. resourceCount gv all1 = resourceCount gv all"
      by (auto simp add: f Inr y)
    have n: "\<forall>l\<in>set (FilteredBy (\<lambda>gv r. Namespaced r) all1).
        \<forall>r\<in>set (APIResources l). Namespaced r"
      using FilteredBy_accepted [of _ "\<lambda>gv r. Namespaced r" all1] by blast
    have "resourceCount gv (FilteredBy (\<lambda>gv r. Namespaced r) all1) \<le> resourceCount gv all" for gv
      using FilteredBy_count [of gv "\<lambda>gv r. Namespaced r" all1] a(2) by simp
    then show ?thesis
      using n by (simp add: f Inr y a(1) ServerPreferredNamespacedResources_def)
  qed
qed

theorem namespaced_resources_are_fewer_witness:
  "\<exists>ns. fst (ServerPreferredNamespacedResources rev (NewMemcachedDiscoveryClient cluster)) =
       Inr (ns, None) \<and>
     resourceCount ''v1'' ns \<le> 2 \<and> resourceCount ''apps/v1'' ns \<le> 1 \<and>
     list_all (\<lambda>l. list_all Namespaced (APIResources l)) ns"
proof -
  let ?all = "[\<lparr>APIResourceList.GroupVersion = ''apps/v1beta1'',
             APIResources = [resource ''statefulsets'' ''StatefulSet'' True]\<rparr>,
           \<lparr>APIResourceList.GroupVersion = ''apps/v1'',
             APIResources = [resource ''deployments'' ''Deployment'' True]\<rparr>,
           \<lparr>APIResourceList.GroupVersion = ''v1'',
             APIResources = [resource ''pods'' ''Pod'' True, resource ''nodes'' ''Node'' False]\<rparr>]"
  have R1: "\<forall>xs :: (GroupResource \<times> APIResource) list. mset (rev xs) = mset xs" by simp
  have R2: "\<forall>xs :: (GroupResource \<times> APIResource) list. mset ((\<lambda>xs. xs) xs) = mset xs" by simp
  obtain c2 where p: "ServerPreferredResources (\<lambda>xs. xs) (NewMemcachedDiscoveryClient cluster) =
      (Inr (?all, None), c2)"
    using cluster_preferred_declared
    by (cases "ServerPreferredResources (\<lambda>xs. xs) (NewMemcachedDiscoveryClient cluster)") simp
  from namespaced_resources_are_fewer [OF R1 R2, of "NewMemcachedDiscoveryClient cluster"]
  have "\<exists>ns. ServerPreferredNamespacedResources rev (NewMemcachedDiscoveryClient cluster) =
        (Inr (ns, None), c2) \<and>
      (\<forall>gv. resourceCount gv ns \<le> resourceCount gv ?all) \<and>
      (\<forall>l\<in>set ns. \<forall>r\<in>set (APIResources l). Namespaced r)"
    unfolding p by (simp only: prod.case sum.case)
  then obtain ns where ns:
    "ServerPreferredNamespacedResources rev (NewMemcachedDiscoveryClient cluster) =
        (Inr (ns, None), c2) \<and>
      (\<forall>gv. resourceCount gv ns \<le> resourceCount gv ?all) \<and>
      (\<forall>l\<in>set ns. \<forall>r\<in>set (APIResources l). Namespaced r)" ..
  have 1: "fst (ServerPreferredNamespacedResources rev (NewMemcachedDiscoveryClient cluster)) =
       Inr (ns, None)"
    using ns [THEN conjunct1] by simp
  have c: "resourceCount ''v1'' ?all = 2" "resourceCount ''apps/v1'' ?all = 1"
    by (simp_all add: resourceCount_def)
  have 2: "resourceCount ''v1'' ns \<le> 2"
    using ns [THEN conjunct2, THEN conjunct1, THEN spec, of "''v1''"] unfolding c .
  have 3: "resourceCount ''apps/v1'' ns \<le> 1"
    using ns [THEN conjunct2, THEN conjunct1, THEN spec, of "''apps/v1''"] unfolding c .
  have 4: "list_all (\<lambda>l. list_all Namespaced (APIResources l)) ns"
    using ns [THEN conjunct2, THEN conjunct2] by (simp add: list_all_iff)
  show ?thesis
    by (rule exI [of _ ns]) (rule conjI [OF 1 conjI [OF 2 conjI [OF 3 4]]])
qed

section \<open>The selection and the rule of the specification\<close>

lemma recorded_update:
  "recorded (s\<lparr>grVersions := (grVersions s)(k' \<mapsto> ver),
              grApiResources := AList.update k' x (grApiResources s)\<rparr>) k =
     (if k = k' then Some (ver, x) else recorded s k)"
  by (simp add: recorded_def update_conv' split: option.split)

lemma recorded_none: "(recorded s k = None) = (map_of (grApiResources s) k = None)"
  by (simp add: recorded_def split: option.split)

lemma recorded_selectResources:
  "CHR ''/'' \<notin> set (snd k) \<Longrightarrow>
   recorded (selectResources g v rs s) k =
     foldl seen (recorded s k)
       (if APIGroup.Name g = fst k
        then map (\<lambda>r. (Version v, Version v = Version (PreferredVersion g), r))
               (filter (\<lambda>r. APIResource.Name r = snd k) rs)
        else [])"
proof (induction rs arbitrary: s)
  case Nil
  then show ?case by simp
next
  case (Cons x xs)
  let ?kx = "(APIGroup.Name g, APIResource.Name x)"
  let ?u = "s\<lparr>grVersions := (grVersions s)(?kx \<mapsto> Version v),
              grApiResources := AList.update ?kx x (grApiResources s)\<rparr>"
  let ?p = "Version v = Version (PreferredVersion g)"
  show ?case
  proof (cases "CHR ''/'' \<in> set (APIResource.Name x)")
    case True
    then have e: "selectResources g v (x # xs) s = selectResources g v xs s" by simp
    from True Cons.prems have "APIResource.Name x \<noteq> snd k" by auto
    then show ?thesis unfolding e using Cons.IH [OF Cons.prems, of s] by simp
  next
    case False
    show ?thesis
    proof (cases "k = ?kx")
      case k: True
      show ?thesis
      proof (cases "map_of (grApiResources s) ?kx \<noteq> None \<and> \<not> ?p")
        case True
        then have e: "selectResources g v (x # xs) s = selectResources g v xs s"
          using False by (simp add: Let_def)
        from True obtain w where w: "recorded s k = Some w"
          using recorded_none [of s k] k by auto
        have "seen (recorded s k) (Version v, ?p, x) = recorded s k"
          using True w by simp
        then show ?thesis
          unfolding e using Cons.IH [OF Cons.prems, of s] k by simp
      next
        case n: False
        then have e: "selectResources g v (x # xs) s = selectResources g v xs ?u"
          using False by (auto simp add: Let_def)
        have "seen (recorded s k) (Version v, ?p, x) = Some (Version v, x)"
        proof (cases "recorded s k")
          case None
          then show ?thesis by simp
        next
          case (Some w)
          then have "map_of (grApiResources s) ?kx \<noteq> None"
            using recorded_none [of s k] k by auto
          with n have ?p by simp
          then show ?thesis using Some by simp
        qed
        moreover have "recorded ?u k = Some (Version v, x)"
          using k by (simp add: recorded_update)
        ultimately show ?thesis
          unfolding e using Cons.IH [OF Cons.prems, of ?u] k by simp
      qed
    next
      case k: False
      have r: "recorded ?u k = recorded s k" using k by (simp add: recorded_update)
      have "selectResources g v (x # xs) s = selectResources g v xs s \<or>
          selectResources g v (x # xs) s = selectResources g v xs ?u"
        by (simp add: Let_def)
      then have "recorded (selectResources g v (x # xs) s) k =
          foldl seen (recorded s k)
            (if APIGroup.Name g = fst k
             then map (\<lambda>r. (Version v, ?p, r)) (filter (\<lambda>r. APIResource.Name r = snd k) xs)
             else [])"
        using Cons.IH [OF Cons.prems, of s] Cons.IH [OF Cons.prems, of ?u] r by auto
      moreover have "\<not> (APIGroup.Name g = fst k \<and> APIResource.Name x = snd k)"
        using k by (cases k) auto
      ultimately show ?thesis by auto
    qed
  qed
qed

lemma recorded_addEmptyList: "recorded (addEmptyList g v s) k = recorded s k"
  by (simp add: recorded_def addEmptyList_def split: option.split)

lemma occurrences_Cons:
  "occurrences ((g, v, rs) # vs) k =
     (if APIGroup.Name g = fst k
      then map (\<lambda>r. (Version v, Version v = Version (PreferredVersion g), r))
             (filter (\<lambda>r. APIResource.Name r = snd k) rs)
      else []) @ occurrences vs k"
  by (simp add: occurrences_def)

lemma recorded_visits:
  "CHR ''/'' \<notin> set (snd k) \<Longrightarrow>
   recorded (foldl visit s vs) k = foldl seen (recorded s k) (occurrences vs k)"
proof (induction vs arbitrary: s)
  case Nil
  then show ?case by (simp add: occurrences_def)
next
  case (Cons x vs)
  obtain g v rs where x: "x = (g, v, rs)" by (cases x)
  have "recorded (visit s x) k =
      foldl seen (recorded s k)
        (if APIGroup.Name g = fst k
         then map (\<lambda>r. (Version v, Version v = Version (PreferredVersion g), r))
                (filter (\<lambda>r. APIResource.Name r = snd k) rs)
         else [])"
    using recorded_selectResources [OF Cons.prems, of g v rs "addEmptyList g v s"]
    by (simp add: visit_def x recorded_addEmptyList)
  then show ?case
    using Cons.IH [OF Cons.prems, of "visit s x"]
    by (simp only: foldl_Cons x occurrences_Cons foldl_append)
qed

lemma visits_selecting: "selecting s \<Longrightarrow> selecting (foldl visit s vs)"
proof (induction vs arbitrary: s)
  case Nil
  then show ?case by simp
next
  case (Cons x vs)
  obtain g v rs where x: "x = (g, v, rs)" by (cases x)
  have "selecting (visit s x)"
    using visit_selecting(1) [OF Cons.prems, of g v rs] by (simp add: visit_def x)
  from Cons.IH [OF this] show ?case by simp
qed

lemma recorded_winner: "recorded (foldl visit no_selection vs) k = winner vs k"
proof (cases "CHR ''/'' \<in> set (snd k)")
  case True
  have "selecting (foldl visit no_selection vs)"
    by (rule visits_selecting [OF selecting_nothing])
  then have "k \<notin> fst ` set (grApiResources (foldl visit no_selection vs))"
    using True unfolding selecting_def by fastforce
  then have "map_of (grApiResources (foldl visit no_selection vs)) k = None"
    by (simp add: map_of_eq_None_iff)
  then show ?thesis using True by (simp add: recorded_none winner_def)
next
  case False
  have "recorded no_selection k = None" by (simp add: recorded_def no_selection_def)
  then show ?thesis using recorded_visits [OF False, of no_selection vs] False
    by (simp add: winner_def)
qed

lemma last_or_none:
  "(case fs of [] \<Rightarrow> None | i # js \<Rightarrow> Some (last (i # js))) =
     (if fs = [] then None else Some (last fs))"
  by (cases fs) simp_all

lemma lastVisit_snoc:
  "lastVisit (vs @ [(g, v, rs)]) gv =
     (if (APIGroup.Name g, Version v) = gv then Some (length vs) else lastVisit vs gv)"
proof -
  let ?P = "\<lambda>ws i. case ws ! i of (g, v, rs) \<Rightarrow> (APIGroup.Name g, Version v) = gv"
  have "filter (?P (vs @ [(g, v, rs)])) [0..<length vs] = filter (?P vs) [0..<length vs]"
    by (rule filter_cong) (simp_all add: nth_append)
  then have f: "filter (?P (vs @ [(g, v, rs)])) [0..<length (vs @ [(g, v, rs)])] =
      filter (?P vs) [0..<length vs] @ (if (APIGroup.Name g, Version v) = gv then [length vs] else [])"
    by simp
  show ?thesis
    unfolding lastVisit_def f last_or_none by simp
qed

lemma visit_fields:
  "gvApiResourceLists (visit s (g, v, rs)) =
     (gvApiResourceLists s)((APIGroup.Name g, Version v) \<mapsto> length (result s))"
  "length (result (visit s (g, v, rs))) = Suc (length (result s))"
  by (simp_all add: visit_def selectResources_frame addEmptyList_def)

lemma visits_lists:
  "gvApiResourceLists (foldl visit no_selection vs) = lastVisit vs \<and>
   length (result (foldl visit no_selection vs)) = length vs"
proof (induction vs rule: rev_induct)
  case Nil
  show ?case by (simp add: no_selection_def lastVisit_def)
next
  case (snoc x vs)
  obtain g v rs where x: "x = (g, v, rs)" by (cases x)
  show ?case
    using snoc by (auto simp add: x visit_fields lastVisit_snoc)
qed

lemma resourcesOfVersions_extends:
  "resourcesOfVersions vs c acc = (Continues res, c') \<Longrightarrow>
   \<exists>new. res = acc @ new \<and> length new = length vs"
proof (induction vs arbitrary: c acc)
  case Nil
  then show ?case by simp
next
  case (Cons v vs)
  obtain r c1 where f: "ServerResourcesForGroupVersion c (GroupVersionForDiscovery.GroupVersion v) = (r, c1)"
    by (cases "ServerResourcesForGroupVersion c (GroupVersionForDiscovery.GroupVersion v)")
  from Cons.prems obtain x where x: "r = Inr (x, None)"
    "resourcesOfVersions vs c1 (acc @ [x]) = (Continues res, c')"
    by (auto simp add: f split: sum.splits option.splits)
  from Cons.IH [OF x(2)] obtain new where "res = (acc @ [x]) @ new" "length new = length vs"
    by blast
  then have "res = acc @ (x # new) \<and> length (x # new) = length (v # vs)" by simp
  then show ?case by blast
qed

lemma resourcesOfGroups_extends:
  "resourcesOfGroups gs c acc = (Continues res, c') \<Longrightarrow>
   \<exists>new. res = acc @ new \<and> length new = length (versionsOf gs)"
proof (induction gs arbitrary: c acc)
  case Nil
  then show ?case by (simp add: versionsOf_def)
next
  case (Cons g gs)
  obtain q c1 where f: "resourcesOfVersions (Versions g) c acc = (q, c1)"
    by (cases "resourcesOfVersions (Versions g) c acc")
  from Cons.prems obtain res1 where q: "q = Continues res1"
    "resourcesOfGroups gs c1 res1 = (Continues res, c')"
    by (auto simp add: f split: flow.splits)
  from resourcesOfVersions_extends [of "Versions g" c acc res1 c1] f q(1)
  obtain n1 where n1: "res1 = acc @ n1" "length n1 = length (Versions g)" by auto
  from Cons.IH [OF q(2)] obtain n2 where n2: "res = res1 @ n2" "length n2 = length (versionsOf gs)"
    by blast
  have "res = acc @ (n1 @ n2) \<and> length (n1 @ n2) = length (versionsOf (g # gs))"
    using n1 n2 by (simp add: versionsOf_def)
  then show ?case by blast
qed

lemma selectVersions_visits:
  "resourcesOfVersions vs c acc = (Continues (acc @ map Some ls), c') \<Longrightarrow>
   selectVersions g vs c s =
     (Continues (foldl visit s (map (\<lambda>(v, l). (g, v, APIResources l)) (zip vs ls))), c')"
proof (induction vs arbitrary: c acc s ls)
  case Nil
  then show ?case by simp
next
  case (Cons v vs)
  obtain r c1 where f: "ServerResourcesForGroupVersion c (GroupVersionForDiscovery.GroupVersion v) = (r, c1)"
    by (cases "ServerResourcesForGroupVersion c (GroupVersionForDiscovery.GroupVersion v)")
  from Cons.prems obtain x where x: "r = Inr (x, None)"
    "resourcesOfVersions vs c1 (acc @ [x]) = (Continues (acc @ map Some ls), c')"
    by (auto simp add: f split: sum.splits option.splits)
  from resourcesOfVersions_extends [OF x(2)] obtain new where
    "acc @ map Some ls = (acc @ [x]) @ new" by blast
  then have "map Some ls = x # new" by simp
  then obtain l ls' where l: "ls = l # ls'" "x = Some l" by (cases ls) auto
  have n: "resourcesOfVersions vs c1 ((acc @ [Some l])) =
      (Continues ((acc @ [Some l]) @ map Some ls'), c')"
    using x(2) l by simp
  have "selectVersions g (v # vs) c s = selectVersions g vs c1 (visit s (g, v, APIResources l))"
    by (simp add: f x(1) l(2) visit_def)
  then show ?case
    using Cons.IH [OF n, of "visit s (g, v, APIResources l)"] by (simp add: l(1))
qed

lemma visits_Cons:
  "length ls1 = length (Versions g) \<Longrightarrow>
   visits (g # gs) (ls1 @ ls2) =
     map (\<lambda>(v, l). (g, v, APIResources l)) (zip (Versions g) ls1) @ visits gs ls2"
  by (simp add: visits_def versionsOf_def zip_map1 case_prod_beta)

lemma selectGroups_visits:
  "resourcesOfGroups gs c acc = (Continues (acc @ map Some ls), c') \<Longrightarrow>
   selectGroups gs c s = (Continues (foldl visit s (visits gs ls)), c') \<and>
   length ls = length (versionsOf gs)"
proof (induction gs arbitrary: c acc s ls)
  case Nil
  then show ?case by (simp add: visits_def versionsOf_def)
next
  case (Cons g gs)
  obtain q c1 where f: "resourcesOfVersions (Versions g) c acc = (q, c1)"
    by (cases "resourcesOfVersions (Versions g) c acc")
  from Cons.prems obtain res1 where q: "q = Continues res1"
    "resourcesOfGroups gs c1 res1 = (Continues (acc @ map Some ls), c')"
    by (auto simp add: f split: flow.splits)
  from resourcesOfVersions_extends [of "Versions g" c acc res1 c1] f q(1)
  obtain n1 where n1: "res1 = acc @ n1" "length n1 = length (Versions g)" by auto
  from resourcesOfGroups_extends [OF q(2)] obtain n2 where
    n2: "acc @ map Some ls = res1 @ n2" by blast
  then have "map Some ls = n1 @ n2" using n1(1) by simp
  then obtain ls1 ls2 where ls: "ls = ls1 @ ls2" "n1 = map Some ls1" "n2 = map Some ls2"
    by (auto simp add: map_eq_append_conv)
  have len: "length ls1 = length (Versions g)" using n1(2) ls(2) by simp
  have v: "selectVersions g (Versions g) c s =
      (Continues (foldl visit s (map (\<lambda>(v, l). (g, v, APIResources l)) (zip (Versions g) ls1))), c1)"
    by (rule selectVersions_visits [of _ _ acc]) (use f q(1) n1(1) ls(2) in simp)
  have n: "resourcesOfGroups gs c1 res1 = (Continues (res1 @ map Some ls2), c')"
    using q(2) n2 ls(3) by simp
  from Cons.IH [OF n] have
    "selectGroups gs c1 (foldl visit s (map (\<lambda>(v, l). (g, v, APIResources l)) (zip (Versions g) ls1))) =
       (Continues (foldl visit (foldl visit s
          (map (\<lambda>(v, l). (g, v, APIResources l)) (zip (Versions g) ls1))) (visits gs ls2)), c')"
    "length ls2 = length (versionsOf gs)"
    by blast+
  then show ?case
    using v len by (simp add: ls(1) visits_Cons versionsOf_def)
qed

lemma selectResources_distinct:
  "distinct (map fst (grApiResources s)) \<Longrightarrow>
   distinct (map fst (grApiResources (selectResources g v rs s)))"
  by (induction rs arbitrary: s) (simp_all add: Let_def distinct_update)

lemma visits_distinct:
  "distinct (map fst (grApiResources s)) \<Longrightarrow>
   distinct (map fst (grApiResources (foldl visit s vs)))"
proof (induction vs arbitrary: s)
  case Nil
  then show ?case by simp
next
  case (Cons x vs)
  obtain g v rs where x: "x = (g, v, rs)" by (cases x)
  have "distinct (map fst (grApiResources (visit s x)))"
    unfolding visit_def x prod.case
    by (rule selectResources_distinct) (use Cons.prems in \<open>simp add: addEmptyList_def\<close>)
  from Cons.IH [OF this] show ?case by simp
qed

lemma seen_from:
  "foldl seen a os = Some w \<Longrightarrow> a = Some w \<or> (\<exists>p. (fst w, p, snd w) \<in> set os)"
proof (induction os arbitrary: a)
  case Nil
  then show ?case by simp
next
  case (Cons x os)
  obtain ver p r where x: "x = (ver, p, r)" by (cases x)
  from Cons.IH [of "seen a x"] Cons.prems
  have "seen a x = Some w \<or> (\<exists>p. (fst w, p, snd w) \<in> set os)" by simp
  then show ?case
  proof
    assume "seen a x = Some w"
    then have "a = Some w \<or> w = (ver, r)"
      by (cases a) (auto simp add: x split: if_splits)
    then show ?thesis by (auto simp add: x)
  qed auto
qed

lemma occurrence_visit:
  assumes "(ver, p, r) \<in> set (occurrences vs k)"
  shows "\<exists>i<length vs. APIGroup.Name (fst (vs ! i)) = fst k \<and> Version (fst (snd (vs ! i))) = ver \<and>
     r \<in> set (snd (snd (vs ! i))) \<and> APIResource.Name r = snd k"
proof -
  from assms obtain x where x: "x \<in> set vs"
    "(ver, p, r) \<in> set (case x of (g, v, rs) \<Rightarrow>
        if APIGroup.Name g = fst k
        then map (\<lambda>r. (Version v, Version v = Version (PreferredVersion g), r))
               (filter (\<lambda>r. APIResource.Name r = snd k) rs)
        else [])"
    by (auto simp add: occurrences_def)
  obtain g v rs where g: "x = (g, v, rs)" by (cases x)
  from x(1) obtain i where i: "i < length vs" "vs ! i = x" by (auto simp add: in_set_conv_nth)
  from x(2) have "APIGroup.Name g = fst k \<and> Version v = ver \<and> r \<in> set rs \<and>
      APIResource.Name r = snd k"
    by (auto simp add: g split: if_splits)
  with i g show ?thesis by auto
qed

lemma winner_visit:
  assumes "winner vs k = Some (ver, r)"
  shows "CHR ''/'' \<notin> set (snd k) \<and>
     (\<exists>i<length vs. APIGroup.Name (fst (vs ! i)) = fst k \<and> Version (fst (snd (vs ! i))) = ver \<and>
        r \<in> set (snd (snd (vs ! i))) \<and> APIResource.Name r = snd k)"
proof -
  from assms have n: "CHR ''/'' \<notin> set (snd k)"
    "foldl seen None (occurrences vs k) = Some (ver, r)"
    by (auto simp add: winner_def split: if_splits)
  from seen_from [OF n(2)] obtain p where "(ver, p, r) \<in> set (occurrences vs k)" by auto
  from occurrence_visit [OF this] n(1) show ?thesis by blast
qed

lemma lastVisit_filter:
  "lastVisit vs gv =
     (if filter (\<lambda>i. (APIGroup.Name (fst (vs ! i)), Version (fst (snd (vs ! i)))) = gv)
           [0..<length vs] = [] then None
      else Some (last (filter (\<lambda>i. (APIGroup.Name (fst (vs ! i)), Version (fst (snd (vs ! i)))) = gv)
           [0..<length vs])))"
  by (simp add: lastVisit_def last_or_none case_prod_beta)

lemma lastVisit_some:
  assumes "lastVisit vs gv = Some i"
  shows "i < length vs \<and> (APIGroup.Name (fst (vs ! i)), Version (fst (snd (vs ! i)))) = gv"
proof -
  define fs where "fs = filter (\<lambda>i. (APIGroup.Name (fst (vs ! i)), Version (fst (snd (vs ! i)))) = gv)
      [0..<length vs]"
  from assms have "fs \<noteq> []" "i = last fs"
    by (auto simp add: lastVisit_filter fs_def split: if_splits)
  then have "i \<in> set fs" by simp
  then show ?thesis by (simp add: fs_def)
qed

lemma lastVisit_exists:
  assumes "i < length vs" "(APIGroup.Name (fst (vs ! i)), Version (fst (snd (vs ! i)))) = gv"
  shows "\<exists>j. lastVisit vs gv = Some j"
proof -
  define fs where "fs = filter (\<lambda>i. (APIGroup.Name (fst (vs ! i)), Version (fst (snd (vs ! i)))) = gv)
      [0..<length vs]"
  from assms have "i \<in> set fs" by (simp add: fs_def)
  then have "fs \<noteq> []" by force
  then show ?thesis by (simp add: lastVisit_filter fs_def)
qed

lemma winner_listed:
  assumes "winner vs k = Some (ver, r)"
  shows "\<exists>j. lastVisit vs (fst k, ver) = Some j"
proof -
  from winner_visit [OF assms] obtain i where i: "i < length vs"
    "(APIGroup.Name (fst (vs ! i)), Version (fst (snd (vs ! i)))) = (fst k, ver)"
    by auto
  from lastVisit_exists [OF i] show ?thesis .
qed

lemma visits_nth:
  "length ls = length (versionsOf gs) \<Longrightarrow> i < length ls \<Longrightarrow>
   visits gs ls ! i = (fst (versionsOf gs ! i), snd (versionsOf gs ! i), APIResources (ls ! i))"
  by (simp add: visits_def case_prod_beta)

lemma visited_versionsOf:
  "visited gs = map (\<lambda>x. GroupVersionForDiscovery.GroupVersion (snd x)) (versionsOf gs)"
  by (simp add: visited_def versionsOf_def map_concat comp_def)

lemma listed_iff:
  assumes "distinct (map fst (grApiResources s))"
  shows "((k, r) \<in> set (grApiResources s) \<and> listOf s k = Some i) =
     (\<exists>ver. recorded s k = Some (ver, r) \<and> gvApiResourceLists s (fst k, ver) = Some i)"
proof -
  have "((k, r) \<in> set (grApiResources s)) = (map_of (grApiResources s) k = Some r)"
    using assms by simp
  then show ?thesis
    by (auto simp add: recorded_def listOf_def split: option.splits)
qed

lemma fetched_lists:
  assumes G: "ServerGroups c = ((Some gl, None), c1)"
    and F: "ServerResources c = (Inr (map Some ls, None), c2)"
  shows "resourcesOfGroups (Groups gl) c1 [] = (Continues (map Some ls), c2)"
proof -
  obtain q c3 where h: "resourcesOfGroups (Groups gl) c1 [] = (q, c3)"
    by (cases "resourcesOfGroups (Groups gl) c1 []")
  from F show ?thesis
    by (cases q) (simp_all add: ServerResources_def G h)
qed

lemma preferred_output:
  assumes G: "ServerGroups c = ((Some gl, None), c1)"
    and F: "ServerResources c = (Inr (map Some ls, None), c2)"
    and R: "\<forall>xs. mset (ranged xs) = mset xs"
  shows "\<exists>out. ServerPreferredResources ranged c = (Inr (out, None), c2) \<and>
     length out = length (versionsOf (Groups gl)) \<and>
     map APIResourceList.GroupVersion out = visited (Groups gl) \<and>
     (\<forall>i<length out. \<forall>r. (r \<in> set (APIResources (out ! i))) =
        (\<exists>k ver. winner (visits (Groups gl) ls) k = Some (ver, r) \<and>
           lastVisit (visits (Groups gl) ls) (fst k, ver) = Some i)) \<and>
     (\<forall>i<length out. distinct (map APIResource.Name (APIResources (out ! i))))"
proof -
  let ?vs = "visits (Groups gl) ls"
  let ?s = "foldl visit no_selection ?vs"
  let ?al = "grApiResources ?s"
  have S: "selectGroups (Groups gl) c1 no_selection = (Continues ?s, c2)"
    using selectGroups_visits [of "Groups gl" c1 "[]" ls c2 no_selection]
      fetched_lists [OF G F] by simp
  from R have R': "mset (ranged ?al) = mset ?al" by simp
  from preferred_built [where ranged = ranged, OF G S R'] obtain out where out:
    "ServerPreferredResources ranged c = (Inr (out, None), c2)"
    "map APIResourceList.GroupVersion out = visited (Groups gl)"
    "\<forall>i<length out. APIResources (out ! i) =
        map snd (filter (\<lambda>(k, r). listOf ?s k = Some i) (ranged ?al))"
    by blast
  have d: "distinct (map fst ?al)"
    by (rule visits_distinct) (simp add: no_selection_def)
  have len: "length out = length (versionsOf (Groups gl))"
    using out(2) map_eq_imp_length_eq [of APIResourceList.GroupVersion out
        "\<lambda>x. GroupVersionForDiscovery.GroupVersion (snd x)" "versionsOf (Groups gl)"]
    by (simp add: visited_versionsOf)
  have "(r \<in> set (APIResources (out ! i))) =
        (\<exists>k ver. winner ?vs k = Some (ver, r) \<and> lastVisit ?vs (fst k, ver) = Some i)"
    if i: "i < length out" for i r
  proof -
    have "(r \<in> set (APIResources (out ! i))) =
        (\<exists>k. (k, r) \<in> set (ranged ?al) \<and> listOf ?s k = Some i)"
      using out(3) i by force
    also have "\<dots> = (\<exists>k. (k, r) \<in> set ?al \<and> listOf ?s k = Some i)"
      using mset_eq_setD [OF R'] by simp
    also have "\<dots> = (\<exists>k ver. recorded ?s k = Some (ver, r) \<and>
        gvApiResourceLists ?s (fst k, ver) = Some i)"
      using listed_iff [OF d] by simp
    also have "\<dots> = (\<exists>k ver. winner ?vs k = Some (ver, r) \<and> lastVisit ?vs (fst k, ver) = Some i)"
      using visits_lists [of ?vs] by (simp add: recorded_winner)
    finally show ?thesis .
  qed
  moreover have "distinct (map APIResource.Name (APIResources (out ! i)))"
    if i: "i < length out" for i
  proof -
    define fl where "fl = filter (\<lambda>(k, r). listOf ?s k = Some i) (ranged ?al)"
    have sel: "selecting ?s" by (rule visits_selecting [OF selecting_nothing])
    have sub: "set fl \<subseteq> set ?al"
      using mset_eq_setD [OF R'] by (auto simp add: fl_def)
    have nm: "APIResource.Name (snd x) = snd (fst x)" if "x \<in> set fl" for x
      using sel sub that unfolding selecting_def by fastforce
    have "mset (map fst (ranged ?al)) = mset (map fst ?al)"
      using R' by (metis mset_map)
    then have "distinct (map fst (ranged ?al))"
      using d mset_eq_imp_distinct_iff by blast
    then have df: "distinct (map fst fl)"
      unfolding fl_def by (rule distinct_map_filter)
    have gr: "fst (fst x) = APIGroup.Name (fst (?vs ! i))" if "x \<in> set fl" for x
    proof -
      from that have "listOf ?s (fst x) = Some i" by (auto simp add: fl_def)
      then have "\<exists>ver. lastVisit ?vs (fst (fst x), ver) = Some i"
        using visits_lists [of ?vs] by (auto simp add: listOf_def)
      then show ?thesis using lastVisit_some by fastforce
    qed
    have inj: "inj_on snd (set (map fst fl))"
    proof (rule inj_onI)
      fix a b
      assume "a \<in> set (map fst fl)" "b \<in> set (map fst fl)" "snd a = snd b"
      moreover from this have "fst a = APIGroup.Name (fst (?vs ! i))"
        "fst b = APIGroup.Name (fst (?vs ! i))"
        using gr by auto
      ultimately show "a = b" by (simp add: prod_eq_iff)
    qed
    have ds: "distinct (map snd (map fst fl))"
      by (subst distinct_map) (rule conjI [OF df inj])
    have "map APIResource.Name (map snd fl) = map snd (map fst fl)"
      using nm by simp
    with ds have "distinct (map APIResource.Name (map snd fl))" by (simp only:)
    then show ?thesis using out(3) i by (simp only: fl_def)
  qed
  ultimately show ?thesis using out(1,2) len by blast
qed

lemma cluster_resources:
  "ServerResources (NewMemcachedDiscoveryClient cluster) =
     (Inr (map Some clusterLists, None), snd (ServerResources (NewMemcachedDiscoveryClient cluster)))"
proof -
  have "fst (ServerResources (NewMemcachedDiscoveryClient cluster)) =
      Inr (map Some clusterLists, None)"
    by (simp add: ServerResources_def ServerGroups_def ServerResourcesForGroupVersion_def
        NewMemcachedDiscoveryClient_def Invalidate_def zero_client_def make_map_def index_def
        cluster_def clusterResources_def appsGroup_def coreGroup_def discoveryVersion_def
        resource_def Let_def clusterLists_def)
  then show ?thesis by (simp only: prod_eq_iff fst_conv snd_conv simp_thms)
qed

lemma cluster_visits:
  "visits (Groups \<lparr>Groups = [appsGroup, coreGroup]\<rparr>) clusterLists =
     [(appsGroup, discoveryVersion ''apps/v1beta1'' ''v1beta1'',
         [resource ''deployments'' ''DeploymentBeta'' True,
          resource ''deployments/scale'' ''Scale'' True,
          resource ''statefulsets'' ''StatefulSet'' True]),
      (appsGroup, discoveryVersion ''apps/v1'' ''v1'', [resource ''deployments'' ''Deployment'' True]),
      (coreGroup, discoveryVersion ''v1'' ''v1'',
         [resource ''pods'' ''Pod'' True, resource ''pods/status'' ''Pod'' True,
          resource ''nodes'' ''Node'' False])]"
  by (simp add: visits_def versionsOf_def clusterLists_def appsGroup_def coreGroup_def)

lemma cluster_winners:
  "winner (visits (Groups \<lparr>Groups = [appsGroup, coreGroup]\<rparr>) clusterLists)
     (''apps'', ''deployments'') = Some (''v1'', resource ''deployments'' ''Deployment'' True)"
  "winner (visits (Groups \<lparr>Groups = [appsGroup, coreGroup]\<rparr>) clusterLists)
     (''apps'', ''statefulsets'') = Some (''v1beta1'', resource ''statefulsets'' ''StatefulSet'' True)"
  unfolding cluster_visits
  by (simp_all add: winner_def occurrences_def appsGroup_def coreGroup_def discoveryVersion_def
      resource_def)

lemma cluster_lastVisit:
  "lastVisit (visits (Groups \<lparr>Groups = [appsGroup, coreGroup]\<rparr>) clusterLists)
     (''apps'', ''v1'') = Some 1"
  "lastVisit (visits (Groups \<lparr>Groups = [appsGroup, coreGroup]\<rparr>) clusterLists)
     (''apps'', ''v1beta1'') = Some 0"
  unfolding cluster_visits
  by (simp_all add: lastVisit_filter appsGroup_def coreGroup_def discoveryVersion_def)

lemma visits_keys:
  assumes "length ls = length (versionsOf gs)" "i < length (versionsOf gs)"
  shows "fst (visits gs ls ! i) = fst (versionsOf gs ! i)"
    "fst (snd (visits gs ls ! i)) = snd (versionsOf gs ! i)"
    "length (visits gs ls) = length (versionsOf gs)"
  using assms by (simp_all add: visits_def case_prod_beta)

lemma fetched_length:
  assumes G: "ServerGroups c = ((Some gl, None), c1)"
    and F: "ServerResources c = (Inr (map Some ls, None), c2)"
  shows "length ls = length (versionsOf (Groups gl))"
  using selectGroups_visits [of "Groups gl" c1 "[]" ls c2 no_selection]
    fetched_lists [OF G F] by simp

lemma list_of_winner:
  assumes L: "length ls = length (versionsOf gs)" and i: "i < length (versionsOf gs)"
  shows "(\<exists>k ver. winner (visits gs ls) k = Some (ver, r) \<and>
            lastVisit (visits gs ls) (fst k, ver) = Some i) =
     (lastVisit (visits gs ls)
        (APIGroup.Name (fst (versionsOf gs ! i)), Version (snd (versionsOf gs ! i))) = Some i \<and>
      winner (visits gs ls) (APIGroup.Name (fst (versionsOf gs ! i)), APIResource.Name r) =
        Some (Version (snd (versionsOf gs ! i)), r))"
proof
  assume "\<exists>k ver. winner (visits gs ls) k = Some (ver, r) \<and>
            lastVisit (visits gs ls) (fst k, ver) = Some i"
  then obtain k ver where w: "winner (visits gs ls) k = Some (ver, r)"
    "lastVisit (visits gs ls) (fst k, ver) = Some i" by blast
  from lastVisit_some [OF w(2)] have
    "fst k = APIGroup.Name (fst (versionsOf gs ! i))" "ver = Version (snd (versionsOf gs ! i))"
    using visits_keys [OF L i] by auto
  moreover from winner_visit [OF w(1)] have "snd k = APIResource.Name r" by auto
  ultimately have "k = (APIGroup.Name (fst (versionsOf gs ! i)), APIResource.Name r)"
    by (simp add: prod_eq_iff)
  with w \<open>ver = Version (snd (versionsOf gs ! i))\<close>
  show "lastVisit (visits gs ls)
        (APIGroup.Name (fst (versionsOf gs ! i)), Version (snd (versionsOf gs ! i))) = Some i \<and>
      winner (visits gs ls) (APIGroup.Name (fst (versionsOf gs ! i)), APIResource.Name r) =
        Some (Version (snd (versionsOf gs ! i)), r)"
    by simp
next
  assume a: "lastVisit (visits gs ls)
        (APIGroup.Name (fst (versionsOf gs ! i)), Version (snd (versionsOf gs ! i))) = Some i \<and>
      winner (visits gs ls) (APIGroup.Name (fst (versionsOf gs ! i)), APIResource.Name r) =
        Some (Version (snd (versionsOf gs ! i)), r)"
  show "\<exists>k ver. winner (visits gs ls) k = Some (ver, r) \<and>
            lastVisit (visits gs ls) (fst k, ver) = Some i"
    by (rule exI [of _ "(APIGroup.Name (fst (versionsOf gs ! i)), APIResource.Name r)"],
        rule exI [of _ "Version (snd (versionsOf gs ! i))"]) (use a in simp)
qed

text \<open>
  Claim C6. Take any client on which \<^verbatim>\<open>ServerGroups\<close> yields a group list and
  \<^verbatim>\<open>ServerResources\<close> yields the resource lists \<open>ls\<close> of its group-versions, none of
  them nil. Then \<^verbatim>\<open>ServerPreferredResources\<close> returns, without error or panic, one list
  per group-version visited, in the order of the visits (the groups in the order of the
  group list, the versions of a group in its declared order). The list at position \<open>i\<close>
  bears the group-version string of the \<open>i\<close>-th visit, also when it ends up empty. It
  holds a resource \<open>r\<close> exactly when \<open>r\<close> is the descriptor that wins for the key of the
  visit's group and the name of \<open>r\<close>, the winning version is the visit's version, and the
  visit is the last one of that group name and version; no two resources in it have the
  same name. So every winning descriptor is in the list of its winning group-version.
\<close>

theorem one_list_per_visited_group_version:
  assumes "ServerGroups c = ((Some gl, None), c1)"
    and "ServerResources c = (Inr (map Some ls, None), c2)"
    and "\<forall>xs. mset (ranged xs) = mset xs"
  shows "\<exists>out. ServerPreferredResources ranged c = (Inr (out, None), c2) \<and>
     length out = length (versionsOf (Groups gl)) \<and>
     (\<forall>i<length out.
        APIResourceList.GroupVersion (out ! i) =
          GroupVersionForDiscovery.GroupVersion (snd (versionsOf (Groups gl) ! i)) \<and>
        distinct (map APIResource.Name (APIResources (out ! i))) \<and>
        (\<forall>r. (r \<in> set (APIResources (out ! i))) =
           (lastVisit (visits (Groups gl) ls)
              (APIGroup.Name (fst (versionsOf (Groups gl) ! i)),
               Version (snd (versionsOf (Groups gl) ! i))) = Some i \<and>
            winner (visits (Groups gl) ls)
              (APIGroup.Name (fst (versionsOf (Groups gl) ! i)), APIResource.Name r) =
              Some (Version (snd (versionsOf (Groups gl) ! i)), r)))) \<and>
     (\<forall>k ver r. winner (visits (Groups gl) ls) k = Some (ver, r) \<longrightarrow>
        (\<exists>i<length out. lastVisit (visits (Groups gl) ls) (fst k, ver) = Some i \<and>
           r \<in> set (APIResources (out ! i))))"
proof -
  let ?gs = "Groups gl"
  let ?vs = "visits ?gs ls"
  note L = fetched_length [OF assms(1,2)]
  from preferred_output [OF assms] obtain out where out:
    "ServerPreferredResources ranged c = (Inr (out, None), c2)"
    "length out = length (versionsOf ?gs)"
    "map APIResourceList.GroupVersion out = visited ?gs"
    "\<forall>i<length out. \<forall>r. (r \<in> set (APIResources (out ! i))) =
        (\<exists>k ver. winner ?vs k = Some (ver, r) \<and> lastVisit ?vs (fst k, ver) = Some i)"
    "\<forall>i<length out. distinct (map APIResource.Name (APIResources (out ! i)))"
    by blast
  have gv: "APIResourceList.GroupVersion (out ! i) =
      GroupVersionForDiscovery.GroupVersion (snd (versionsOf ?gs ! i))" if "i < length out" for i
  proof -
    have "map APIResourceList.GroupVersion out ! i = visited ?gs ! i" by (simp only: out(3))
    then show ?thesis using that out(2) by (simp add: visited_versionsOf)
  qed
  have mem: "(r \<in> set (APIResources (out ! i))) =
      (lastVisit ?vs (APIGroup.Name (fst (versionsOf ?gs ! i)), Version (snd (versionsOf ?gs ! i))) =
         Some i \<and>
       winner ?vs (APIGroup.Name (fst (versionsOf ?gs ! i)), APIResource.Name r) =
         Some (Version (snd (versionsOf ?gs ! i)), r))" if "i < length out" for i r
    using out(4) that list_of_winner [OF L, of i r] out(2) by simp
  have all: "\<exists>i<length out. lastVisit ?vs (fst k, ver) = Some i \<and> r \<in> set (APIResources (out ! i))"
    if w: "winner ?vs k = Some (ver, r)" for k ver r
  proof -
    from winner_listed [OF w] obtain j where j: "lastVisit ?vs (fst k, ver) = Some j" by blast
    from lastVisit_some [OF j] have "j < length out"
      using out(2) L by (simp add: visits_def)
    moreover from this have "r \<in> set (APIResources (out ! j))"
      using out(4) w j by blast
    ultimately show ?thesis using j by blast
  qed
  show ?thesis
    using out(1,2,5) gv mem all by blast
qed

lemma cluster_versionsOf:
  "versionsOf (Groups \<lparr>Groups = [appsGroup, coreGroup]\<rparr>) =
     [(appsGroup, discoveryVersion ''apps/v1beta1'' ''v1beta1''),
      (appsGroup, discoveryVersion ''apps/v1'' ''v1''),
      (coreGroup, discoveryVersion ''v1'' ''v1'')]"
  by (simp add: versionsOf_def appsGroup_def coreGroup_def)

theorem one_list_per_visited_group_version_witness:
  "\<exists>out. fst (ServerPreferredResources rev (NewMemcachedDiscoveryClient cluster)) =
       Inr (out, None) \<and>
     length out = 3 \<and>
     APIResourceList.GroupVersion (out ! 1) = ''apps/v1'' \<and>
     resource ''deployments'' ''Deployment'' True \<in> set (APIResources (out ! 1)) \<and>
     resource ''statefulsets'' ''StatefulSet'' True \<in> set (APIResources (out ! 0))"
proof -
  let ?gl = "\<lparr>Groups = [appsGroup, coreGroup]\<rparr>"
  let ?vs = "visits (Groups ?gl) clusterLists"
  let ?d = "resource ''deployments'' ''Deployment'' True"
  let ?t = "resource ''statefulsets'' ''StatefulSet'' True"
  have R: "\<forall>xs :: (GroupResource \<times> APIResource) list. mset (rev xs) = mset xs" by simp
  from one_list_per_visited_group_version [where ranged = rev,
      OF cluster_groups cluster_resources R]
  obtain out where o:
    "ServerPreferredResources rev (NewMemcachedDiscoveryClient cluster) =
       (Inr (out, None), snd (ServerResources (NewMemcachedDiscoveryClient cluster))) \<and>
     length out = length (versionsOf (Groups ?gl)) \<and>
     (\<forall>i<length out.
        APIResourceList.GroupVersion (out ! i) =
          GroupVersionForDiscovery.GroupVersion (snd (versionsOf (Groups ?gl) ! i)) \<and>
        distinct (map APIResource.Name (APIResources (out ! i))) \<and>
        (\<forall>r. (r \<in> set (APIResources (out ! i))) =
           (lastVisit ?vs
              (APIGroup.Name (fst (versionsOf (Groups ?gl) ! i)),
               Version (snd (versionsOf (Groups ?gl) ! i))) = Some i \<and>
            winner ?vs
              (APIGroup.Name (fst (versionsOf (Groups ?gl) ! i)), APIResource.Name r) =
              Some (Version (snd (versionsOf (Groups ?gl) ! i)), r)))) \<and>
     (\<forall>k ver r. winner ?vs k = Some (ver, r) \<longrightarrow>
        (\<exists>i<length out. lastVisit ?vs (fst k, ver) = Some i \<and>
           r \<in> set (APIResources (out ! i))))" ..
  note o1 = o [THEN conjunct1] and o2 = o [THEN conjunct2, THEN conjunct1]
    and o3 = o [THEN conjunct2, THEN conjunct2, THEN conjunct1]
    and o4 = o [THEN conjunct2, THEN conjunct2, THEN conjunct2]
  have 1: "fst (ServerPreferredResources rev (NewMemcachedDiscoveryClient cluster)) =
       Inr (out, None)"
    by (simp only: o1 fst_conv)
  have 2: "length out = 3"
    unfolding o2 cluster_versionsOf by simp
  have "APIResourceList.GroupVersion (out ! 1) =
      GroupVersionForDiscovery.GroupVersion (snd (versionsOf (Groups ?gl) ! 1))"
    using o3 [rule_format, of 1] 2 by simp
  then have 3: "APIResourceList.GroupVersion (out ! 1) = ''apps/v1''"
    unfolding cluster_versionsOf by (simp add: discoveryVersion_def)
  from o4 [rule_format, OF cluster_winners(1)] obtain i where
    "lastVisit ?vs (fst (''apps'', ''deployments''), ''v1'') = Some i"
    "?d \<in> set (APIResources (out ! i))" by auto
  then have 4: "?d \<in> set (APIResources (out ! 1))"
    using cluster_lastVisit(1) by simp
  from o4 [rule_format, OF cluster_winners(2)] obtain j where
    "lastVisit ?vs (fst (''apps'', ''statefulsets''), ''v1beta1'') = Some j"
    "?t \<in> set (APIResources (out ! j))" by auto
  then have 5: "?t \<in> set (APIResources (out ! 0))"
    using cluster_lastVisit(2) by simp
  show ?thesis
    by (rule exI [of _ out]) (rule conjI [OF 1 conjI [OF 2 conjI [OF 3 conjI [OF 4 5]]]])
qed

lemma seen_closed_form:
  "foldl seen None os =
     (if os = [] then None
      else if filter (\<lambda>x. fst (snd x)) os = [] then Some (fst (hd os), snd (snd (hd os)))
      else Some (fst (last (filter (\<lambda>x. fst (snd x)) os)),
                 snd (snd (last (filter (\<lambda>x. fst (snd x)) os)))))"
proof (induction os rule: rev_induct)
  case Nil
  show ?case by simp
next
  case (snoc x os)
  obtain ver p r where x: "x = (ver, p, r)" by (cases x)
  show ?case
  proof (cases "os = []")
    case True
    then show ?thesis by (simp add: x)
  next
    case False
    with snoc obtain w where w: "foldl seen None os = Some w" by (auto split: if_splits)
    show ?thesis
      using snoc False w by (cases p) (simp_all add: x split: if_splits)
  qed
qed

lemma recorded_versions:
  assumes "selecting s"
  shows "grVersions s k = map_option fst (recorded s k)"
    and "map_of (grApiResources s) k = map_option snd (recorded s k)"
proof -
  from assms have d: "dom (grVersions s) = fst ` set (grApiResources s)"
    by (simp add: selecting_def)
  show "map_of (grApiResources s) k = map_option snd (recorded s k)"
    by (simp add: recorded_def split: option.split)
  show "grVersions s k = map_option fst (recorded s k)"
  proof (cases "map_of (grApiResources s) k")
    case None
    then have "k \<notin> dom (grVersions s)" unfolding d by (simp add: map_of_eq_None_iff)
    then show ?thesis using None by (auto simp add: recorded_def)
  next
    case (Some r)
    then have "k \<in> dom (grVersions s)" unfolding d by (rule map_of_SomeD [THEN image_eqI [of _ fst, rotated]]) simp
    then show ?thesis using Some by (auto simp add: recorded_def)
  qed
qed

text \<open>
  Claim C1. Take any client on which \<^verbatim>\<open>ServerGroups\<close> yields a group list and
  \<^verbatim>\<open>ServerResources\<close> yields the resource lists \<open>ls\<close>, none of them nil. Then the first
  loop of \<^verbatim>\<open>ServerPreferredResources\<close> completes, and for every key it has recorded the
  version and the descriptor that the rule of the specification selects from the
  occurrences of the key, taken in the order of the visits: the first one seen, replaced
  by a later one exactly when that one is of the preferred version of its group. The
  method returns, and the descriptor selected for a key is in the list of the visit of
  the key's group and the selected version, which bears that visit's group-version string;
  no list of a visit of that group holds any other resource of that name, or holds it
  elsewhere. In particular, on the cluster whose group \<open>apps\<close> has the versions
  \<open>v1beta1\<close> and \<open>v1\<close>, prefers \<open>v1\<close> and has \<open>deployments\<close> in both, the output has
  \<open>deployments\<close> in the list of \<open>apps/v1\<close> and in no other list.
\<close>

theorem preferred_version_overrides:
  assumes "ServerGroups c = ((Some gl, None), c1)"
    and "ServerResources c = (Inr (map Some ls, None), c2)"
    and "\<forall>xs. mset (ranged xs) = mset xs"
  shows "(\<exists>s. selectGroups (Groups gl) c1 no_selection = (Continues s, c2) \<and>
        (\<forall>k. grVersions s k = map_option fst (winner (visits (Groups gl) ls) k)) \<and>
        (\<forall>k. map_of (grApiResources s) k = map_option snd (winner (visits (Groups gl) ls) k))) \<and>
     (\<exists>out. ServerPreferredResources ranged c = (Inr (out, None), c2) \<and>
        length out = length (versionsOf (Groups gl)) \<and>
        (\<forall>k ver r. winner (visits (Groups gl) ls) k = Some (ver, r) \<longrightarrow>
           (\<exists>i<length out.
              APIGroup.Name (fst (versionsOf (Groups gl) ! i)) = fst k \<and>
              Version (snd (versionsOf (Groups gl) ! i)) = ver \<and>
              APIResourceList.GroupVersion (out ! i) =
                GroupVersionForDiscovery.GroupVersion (snd (versionsOf (Groups gl) ! i)) \<and>
              r \<in> set (APIResources (out ! i)) \<and>
              (\<forall>j<length out. \<forall>r'\<in>set (APIResources (out ! j)).
                 APIGroup.Name (fst (versionsOf (Groups gl) ! j)) = fst k \<and>
                 APIResource.Name r' = snd k \<longrightarrow> j = i \<and> r' = r)))) \<and>
     (\<exists>out. fst (ServerPreferredResources ranged (NewMemcachedDiscoveryClient cluster)) =
          Inr (out, None) \<and>
        map APIResourceList.GroupVersion out = [''apps/v1beta1'', ''apps/v1'', ''v1''] \<and>
        APIResources (out ! 1) = [resource ''deployments'' ''Deployment'' True] \<and>
        (\<forall>i<length out. i \<noteq> 1 \<longrightarrow>
           ''deployments'' \<notin> APIResource.Name ` set (APIResources (out ! i))))"
proof -
  let ?gs = "Groups gl"
  let ?vs = "visits ?gs ls"
  let ?s = "foldl visit no_selection ?vs"
  note L = fetched_length [OF assms(1,2)]
  have S: "selectGroups ?gs c1 no_selection = (Continues ?s, c2)"
    using selectGroups_visits [of ?gs c1 "[]" ls c2 no_selection]
      fetched_lists [OF assms(1,2)] by simp
  have sel: "selecting ?s" by (rule visits_selecting [OF selecting_nothing])
  have a: "\<exists>s. selectGroups ?gs c1 no_selection = (Continues s, c2) \<and>
        (\<forall>k. grVersions s k = map_option fst (winner ?vs k)) \<and>
        (\<forall>k. map_of (grApiResources s) k = map_option snd (winner ?vs k))"
    using S recorded_versions [OF sel] by (auto simp add: recorded_winner)
  from preferred_output [OF assms] obtain out where out:
    "ServerPreferredResources ranged c = (Inr (out, None), c2)"
    "length out = length (versionsOf ?gs)"
    "map APIResourceList.GroupVersion out = visited ?gs"
    "\<forall>i<length out. \<forall>r. (r \<in> set (APIResources (out ! i))) =
        (\<exists>k ver. winner ?vs k = Some (ver, r) \<and> lastVisit ?vs (fst k, ver) = Some i)"
    by blast
  have gv: "APIResourceList.GroupVersion (out ! i) =
      GroupVersionForDiscovery.GroupVersion (snd (versionsOf ?gs ! i))" if "i < length out" for i
  proof -
    have "map APIResourceList.GroupVersion out ! i = visited ?gs ! i" by (simp only: out(3))
    then show ?thesis using that out(2) by (simp add: visited_versionsOf)
  qed
  have b: "\<exists>i<length out.
              APIGroup.Name (fst (versionsOf ?gs ! i)) = fst k \<and>
              Version (snd (versionsOf ?gs ! i)) = ver \<and>
              APIResourceList.GroupVersion (out ! i) =
                GroupVersionForDiscovery.GroupVersion (snd (versionsOf ?gs ! i)) \<and>
              r \<in> set (APIResources (out ! i)) \<and>
              (\<forall>j<length out. \<forall>r'\<in>set (APIResources (out ! j)).
                 APIGroup.Name (fst (versionsOf ?gs ! j)) = fst k \<and>
                 APIResource.Name r' = snd k \<longrightarrow> j = i \<and> r' = r)"
    if w: "winner ?vs k = Some (ver, r)" for k ver r
  proof -
    from winner_listed [OF w] obtain i where i: "lastVisit ?vs (fst k, ver) = Some i" by blast
    from lastVisit_some [OF i] have iv: "i < length ?vs"
      and ik: "(APIGroup.Name (fst (?vs ! i)), Version (fst (snd (?vs ! i)))) = (fst k, ver)"
      by simp_all
    from iv have il: "i < length out"
      using out(2) L by (simp add: visits_def)
    have k1: "APIGroup.Name (fst (versionsOf ?gs ! i)) = fst k"
      "Version (snd (versionsOf ?gs ! i)) = ver"
      using ik visits_keys [OF L, of i] il out(2) by simp_all
    have m: "r \<in> set (APIResources (out ! i))"
      using out(4) il w i by blast
    have only: "j = i \<and> r' = r"
      if j: "j < length out" and r': "r' \<in> set (APIResources (out ! j))"
        and e: "APIGroup.Name (fst (versionsOf ?gs ! j)) = fst k" "APIResource.Name r' = snd k"
      for j r'
    proof -
      from out(4) j r' obtain k' ver' where w': "winner ?vs k' = Some (ver', r')"
        "lastVisit ?vs (fst k', ver') = Some j" by blast
      from lastVisit_some [OF w'(2)] have "fst k' = APIGroup.Name (fst (versionsOf ?gs ! j))"
        using visits_keys [OF L, of j] j out(2) by simp
      moreover from winner_visit [OF w'(1)] have "snd k' = APIResource.Name r'" by auto
      ultimately have "k' = k" using e by (simp add: prod_eq_iff)
      with w w' i show ?thesis by simp
    qed
    show ?thesis
      using il k1 gv [OF il] m only by blast
  qed
  have "\<exists>out. ServerPreferredResources ranged c = (Inr (out, None), c2) \<and>
        length out = length (versionsOf ?gs) \<and>
        (\<forall>k ver r. winner ?vs k = Some (ver, r) \<longrightarrow>
           (\<exists>i<length out.
              APIGroup.Name (fst (versionsOf ?gs ! i)) = fst k \<and>
              Version (snd (versionsOf ?gs ! i)) = ver \<and>
              APIResourceList.GroupVersion (out ! i) =
                GroupVersionForDiscovery.GroupVersion (snd (versionsOf ?gs ! i)) \<and>
              r \<in> set (APIResources (out ! i)) \<and>
              (\<forall>j<length out. \<forall>r'\<in>set (APIResources (out ! j)).
                 APIGroup.Name (fst (versionsOf ?gs ! j)) = fst k \<and>
                 APIResource.Name r' = snd k \<longrightarrow> j = i \<and> r' = r)))"
    using out(1,2) b by blast
  with a cluster_deployments [OF assms(3)] show ?thesis by (intro conjI)
qed

theorem preferred_version_overrides_witness:
  "(\<exists>s. fst (selectGroups [appsGroup, coreGroup]
            (snd (ServerGroups (NewMemcachedDiscoveryClient cluster))) no_selection) =
          Continues s \<and>
        grVersions s (''apps'', ''deployments'') = Some ''v1'' \<and>
        grVersions s (''apps'', ''statefulsets'') = Some ''v1beta1'' \<and>
        map_of (grApiResources s) (''apps'', ''deployments'') =
          Some (resource ''deployments'' ''Deployment'' True)) \<and>
   (\<exists>out. fst (ServerPreferredResources rev (NewMemcachedDiscoveryClient cluster)) =
        Inr (out, None) \<and>
      length out = 3 \<and>
      APIResourceList.GroupVersion (out ! 1) = ''apps/v1'' \<and>
      resource ''deployments'' ''Deployment'' True \<in> set (APIResources (out ! 1)))"
proof -
  let ?gl = "\<lparr>Groups = [appsGroup, coreGroup]\<rparr>"
  let ?vs = "visits (Groups ?gl) clusterLists"
  let ?d = "resource ''deployments'' ''Deployment'' True"
  let ?c1 = "snd (ServerGroups (NewMemcachedDiscoveryClient cluster))"
  let ?c2 = "snd (ServerResources (NewMemcachedDiscoveryClient cluster))"
  have R: "\<forall>xs :: (GroupResource \<times> APIResource) list. mset (rev xs) = mset xs" by simp
  note t = preferred_version_overrides [where ranged = rev,
      OF cluster_groups cluster_resources R]
  from t [THEN conjunct1] obtain s where s:
    "selectGroups (Groups ?gl) ?c1 no_selection = (Continues s, ?c2) \<and>
     (\<forall>k. grVersions s k = map_option fst (winner ?vs k)) \<and>
     (\<forall>k. map_of (grApiResources s) k = map_option snd (winner ?vs k))" ..
  have s1: "fst (selectGroups [appsGroup, coreGroup] ?c1 no_selection) = Continues s"
    using s [THEN conjunct1] by simp
  have s2: "grVersions s (''apps'', ''deployments'') = Some ''v1''"
    using s [THEN conjunct2, THEN conjunct1, THEN spec, of "(''apps'', ''deployments'')"]
    unfolding cluster_winners by simp
  have s3: "grVersions s (''apps'', ''statefulsets'') = Some ''v1beta1''"
    using s [THEN conjunct2, THEN conjunct1, THEN spec, of "(''apps'', ''statefulsets'')"]
    unfolding cluster_winners by simp
  have s4: "map_of (grApiResources s) (''apps'', ''deployments'') = Some ?d"
    using s [THEN conjunct2, THEN conjunct2, THEN spec, of "(''apps'', ''deployments'')"]
    unfolding cluster_winners by simp
  have a: "\<exists>s. fst (selectGroups [appsGroup, coreGroup] ?c1 no_selection) = Continues s \<and>
        grVersions s (''apps'', ''deployments'') = Some ''v1'' \<and>
        grVersions s (''apps'', ''statefulsets'') = Some ''v1beta1'' \<and>
        map_of (grApiResources s) (''apps'', ''deployments'') = Some ?d"
    by (rule exI [of _ s]) (rule conjI [OF s1 conjI [OF s2 conjI [OF s3 s4]]])
  from t [THEN conjunct2, THEN conjunct1] obtain out where o:
    "ServerPreferredResources rev (NewMemcachedDiscoveryClient cluster) = (Inr (out, None), ?c2) \<and>
     length out = length (versionsOf (Groups ?gl)) \<and>
     (\<forall>k ver r. winner ?vs k = Some (ver, r) \<longrightarrow>
        (\<exists>i<length out.
           APIGroup.Name (fst (versionsOf (Groups ?gl) ! i)) = fst k \<and>
           Version (snd (versionsOf (Groups ?gl) ! i)) = ver \<and>
           APIResourceList.GroupVersion (out ! i) =
             GroupVersionForDiscovery.GroupVersion (snd (versionsOf (Groups ?gl) ! i)) \<and>
           r \<in> set (APIResources (out ! i)) \<and>
           (\<forall>j<length out. \<forall>r'\<in>set (APIResources (out ! j)).
              APIGroup.Name (fst (versionsOf (Groups ?gl) ! j)) = fst k \<and>
              APIResource.Name r' = snd k \<longrightarrow> j = i \<and> r' = r)))" ..
  have o1: "fst (ServerPreferredResources rev (NewMemcachedDiscoveryClient cluster)) =
      Inr (out, None)"
    by (simp only: o [THEN conjunct1] fst_conv)
  have o2: "length out = 3"
    unfolding o [THEN conjunct2, THEN conjunct1] cluster_versionsOf by simp
  from o [THEN conjunct2, THEN conjunct2, rule_format, OF cluster_winners(1)]
  obtain i where i: "i < length out"
    "APIGroup.Name (fst (versionsOf (Groups ?gl) ! i)) = ''apps''"
    "Version (snd (versionsOf (Groups ?gl) ! i)) = ''v1''"
    "APIResourceList.GroupVersion (out ! i) =
       GroupVersionForDiscovery.GroupVersion (snd (versionsOf (Groups ?gl) ! i))"
    "?d \<in> set (APIResources (out ! i))"
    by auto
  from i(1) o2 have "i = 0 \<or> i = 1 \<or> i = 2" by arith
  then have i1: "i = 1"
    using i(2,3) unfolding cluster_versionsOf
    by (auto simp add: appsGroup_def coreGroup_def discoveryVersion_def)
  have o3: "APIResourceList.GroupVersion (out ! 1) = ''apps/v1''"
    using i(4) unfolding i1 cluster_versionsOf by (simp add: discoveryVersion_def)
  have o4: "?d \<in> set (APIResources (out ! 1))"
    using i(5) unfolding i1 .
  have b: "\<exists>out. fst (ServerPreferredResources rev (NewMemcachedDiscoveryClient cluster)) =
        Inr (out, None) \<and>
      length out = 3 \<and>
      APIResourceList.GroupVersion (out ! 1) = ''apps/v1'' \<and>
      ?d \<in> set (APIResources (out ! 1))"
    by (rule exI [of _ out]) (rule conjI [OF o1 conjI [OF o2 conjI [OF o3 o4]]])
  show ?thesis by (rule conjI [OF a b])
qed

end
